theory Spec2Isabelle
  imports Complex_Main
begin

section \<open>JavaScript numbers\<close>

text \<open>
  The tuner (\<^verbatim>\<open>src/scripts/tuner.ts\<close>) computes with JavaScript numbers. They are modelled
  as the reals extended by the two infinities and NaN. Arithmetic on finite values is
  exact real arithmetic: the rounding of IEEE doubles and of the \<^verbatim>\<open>Float32Array\<close> slots is not
  modelled, and there is a single zero, which divides like \<^verbatim>\<open>+0\<close> (the only zero divisors the
  program can produce are the literal \<^verbatim>\<open>0\<close> and an array length of 0).
  A read outside an array is \<^verbatim>\<open>undefined\<close>, which every arithmetic operator and every
  comparison of the program turns into NaN; such reads are NaN in the model.
  Where a statement depends on the rounding, or on the greatest array that can be
  allocated, the function is given a second time with that part of the engine as a
  parameter: \<open>autocorrelate_on\<close>, \<open>NOTE_FREQUENCIES_on\<close> and \<open>findClosestNote_on\<close> below.
\<close>

datatype jsnum = NaN | NegInf | Fin real | PosInf

fun js_neg :: "jsnum \<Rightarrow> jsnum" where
  "js_neg NaN = NaN"
| "js_neg NegInf = PosInf"
| "js_neg (Fin x) = Fin (- x)"
| "js_neg PosInf = NegInf"

fun js_add :: "jsnum \<Rightarrow> jsnum \<Rightarrow> jsnum" where
  "js_add NaN _ = NaN"
| "js_add _ NaN = NaN"
| "js_add (Fin x) (Fin y) = Fin (x + y)"
| "js_add (Fin x) b = b"
| "js_add a (Fin y) = a"
| "js_add PosInf PosInf = PosInf"
| "js_add NegInf NegInf = NegInf"
| "js_add PosInf NegInf = NaN"
| "js_add NegInf PosInf = NaN"

definition js_sub :: "jsnum \<Rightarrow> jsnum \<Rightarrow> jsnum" where
  "js_sub a b = js_add a (js_neg b)"

text \<open>The sign of a number that is not NaN: \<open>-1\<close>, \<open>0\<close> or \<open>1\<close>.\<close>

fun js_sign :: "jsnum \<Rightarrow> real" where
  "js_sign NaN = 0"
| "js_sign NegInf = - 1"
| "js_sign (Fin x) = sgn x"
| "js_sign PosInf = 1"

definition js_inf :: "real \<Rightarrow> jsnum" where
  "js_inf s = (if s = 0 then NaN else if 0 < s then PosInf else NegInf)"

fun js_mul :: "jsnum \<Rightarrow> jsnum \<Rightarrow> jsnum" where
  "js_mul NaN _ = NaN"
| "js_mul _ NaN = NaN"
| "js_mul (Fin x) (Fin y) = Fin (x * y)"
| "js_mul a b = js_inf (js_sign a * js_sign b)"

fun js_div :: "jsnum \<Rightarrow> jsnum \<Rightarrow> jsnum" where
  "js_div NaN _ = NaN"
| "js_div _ NaN = NaN"
| "js_div (Fin x) (Fin y) = (if y = 0 then js_inf (sgn x) else Fin (x / y))"
| "js_div (Fin x) b = Fin 0"
| "js_div a (Fin y) = js_inf (js_sign a * (if y < 0 then - 1 else 1))"
| "js_div a b = NaN"

text \<open>The comparisons \<^verbatim>\<open><\<close>, \<^verbatim>\<open>>\<close>, \<^verbatim>\<open>>=\<close> and \<^verbatim>\<open>!==\<close>: every comparison with NaN is false,
  except \<^verbatim>\<open>!==\<close>, which is true.\<close>

fun js_lt :: "jsnum \<Rightarrow> jsnum \<Rightarrow> bool" where
  "js_lt NaN _ = False"
| "js_lt _ NaN = False"
| "js_lt (Fin x) (Fin y) = (x < y)"
| "js_lt NegInf b = (b \<noteq> NegInf)"
| "js_lt a PosInf = (a \<noteq> PosInf)"
| "js_lt a b = False"

definition js_gt :: "jsnum \<Rightarrow> jsnum \<Rightarrow> bool" where
  "js_gt a b = js_lt b a"

definition js_ge :: "jsnum \<Rightarrow> jsnum \<Rightarrow> bool" where
  "js_ge a b = (a \<noteq> NaN \<and> b \<noteq> NaN \<and> (a = b \<or> js_lt b a))"

definition js_ne :: "jsnum \<Rightarrow> jsnum \<Rightarrow> bool" where
  "js_ne a b = (a = NaN \<or> b = NaN \<or> a \<noteq> b)"

text \<open>\<^verbatim>\<open>Math.sqrt\<close>, \<^verbatim>\<open>Math.log2\<close>, \<^verbatim>\<open>Math.round\<close> (halves go up) and \<^verbatim>\<open>Math.pow(2, x)\<close>
  for a finite \<open>x\<close>.\<close>

fun Math_sqrt :: "jsnum \<Rightarrow> jsnum" where
  "Math_sqrt (Fin x) = (if x < 0 then NaN else Fin (sqrt x))"
| "Math_sqrt PosInf = PosInf"
| "Math_sqrt _ = NaN"

fun Math_log2 :: "jsnum \<Rightarrow> jsnum" where
  "Math_log2 (Fin x) = (if x < 0 then NaN else if x = 0 then NegInf else Fin (log 2 x))"
| "Math_log2 PosInf = PosInf"
| "Math_log2 _ = NaN"

fun Math_round :: "jsnum \<Rightarrow> jsnum" where
  "Math_round (Fin x) = Fin (of_int \<lfloor>x + 1 / 2\<rfloor>)"
| "Math_round a = a"

definition Math_pow2 :: "real \<Rightarrow> real" where
  "Math_pow2 x = 2 powr x"

section \<open>Constants and the note table\<close>

definition NOTE_NAMES :: "string list" where
  "NOTE_NAMES = [''C'', ''C#'', ''D'', ''D#'', ''E'', ''F'', ''F#'', ''G'', ''G#'', ''A'', ''A#'', ''B'']"

text \<open>An entry \<^verbatim>\<open>{ note, frequency }\<close> of the table (the field names carry a prefix
  because \<open>note\<close> is a keyword).\<close>

record note_entry =
  ne_note :: string
  ne_frequency :: real

text \<open>The table is filled at start-up by two nested loops, the outer over the octaves
  \<open>0..8\<close>, the inner over the twelve semitones; each step pushes one entry.\<close>

definition push_note :: "nat \<Rightarrow> nat \<Rightarrow> note_entry list \<Rightarrow> note_entry list" where
  "push_note octave i tbl =
     (let noteNumber = octave * 12 + i;
          frequency = 440 * Math_pow2 ((real noteNumber - 57) / 12)
      in tbl @ [\<lparr>ne_note = NOTE_NAMES ! i, ne_frequency = frequency\<rparr>])"

definition NOTE_FREQUENCIES :: "note_entry list" where
  "NOTE_FREQUENCIES = fold (\<lambda>octave. fold (push_note octave) [0..<12]) [0..<9] []"

definition MIN_FREQUENCY :: real where "MIN_FREQUENCY = 65"
definition MAX_FREQUENCY :: real where "MAX_FREQUENCY = 1000"
definition MIN_RMS_THRESHOLD :: real where "MIN_RMS_THRESHOLD = 0.005"
definition windowSize :: nat where "windowSize = 2048"

section \<open>Notes and cents\<close>

datatype js_error = RangeError | TypeError

text \<open>The object \<^verbatim>\<open>{ note, octave, frequency }\<close>: what \<^verbatim>\<open>findClosestNote\<close> returns and what
  \<^verbatim>\<open>selectedNote\<close> holds.\<close>

record closest_note =
  cn_note :: string
  cn_octave :: jsnum
  cn_frequency :: jsnum

text \<open>
  \<^verbatim>\<open>findClosestNote\<close>. After the range check the index is either an integer in \<open>[0, 108)\<close> or
  NaN (both comparisons are false on NaN); with a NaN index \<^verbatim>\<open>NOTE_FREQUENCIES[noteIndex]\<close> is
  \<^verbatim>\<open>undefined\<close> and reading its \<^verbatim>\<open>frequency\<close> throws a TypeError.
\<close>

definition findClosestNote :: "jsnum \<Rightarrow> js_error + closest_note" where
  "findClosestNote freq =
     (let semitones = js_mul (Fin 12) (Math_log2 (js_div freq (Fin 440)));
          noteIndex = js_add (Math_round semitones) (Fin 57)
      in if js_lt noteIndex (Fin 0) \<or> js_ge noteIndex (Fin (real (length NOTE_FREQUENCIES)))
         then Inr \<lparr>cn_note = ''--'', cn_octave = Fin 0, cn_frequency = Fin 0\<rparr>
         else (case noteIndex of
                 Fin x \<Rightarrow>
                   (let octave = \<lfloor>x / 12\<rfloor>;
                        noteInOctave = nat \<lfloor>x\<rfloor> mod 12;
                        targetFrequency = ne_frequency (NOTE_FREQUENCIES ! nat \<lfloor>x\<rfloor>)
                    in Inr \<lparr>cn_note = NOTE_NAMES ! noteInOctave,
                            cn_octave = Fin (of_int octave),
                            cn_frequency = Fin targetFrequency\<rparr>)
               | _ \<Rightarrow> Inl TypeError))"

definition calculateCents :: "jsnum \<Rightarrow> jsnum \<Rightarrow> jsnum" where
  "calculateCents detected target = js_mul (Fin 1200) (Math_log2 (js_div detected target))"

section \<open>The autocorrelation\<close>

text \<open>A read \<^verbatim>\<open>buffer[i]\<close> of the sample buffer, whose elements are finite reals, and a read
  or write \<^verbatim>\<open>correlations[i]\<close> of the typed array of correlations. A read outside the array is
  \<^verbatim>\<open>undefined\<close> (NaN in arithmetic and comparisons); a write outside a typed array is ignored.\<close>

definition buffer_get :: "real list \<Rightarrow> int \<Rightarrow> jsnum" where
  "buffer_get buffer i = (if 0 \<le> i \<and> i < int (length buffer) then Fin (buffer ! nat i) else NaN)"

definition array_get :: "jsnum list \<Rightarrow> int \<Rightarrow> jsnum" where
  "array_get a i = (if 0 \<le> i \<and> i < int (length a) then a ! nat i else NaN)"

definition array_set :: "jsnum list \<Rightarrow> int \<Rightarrow> jsnum \<Rightarrow> jsnum list" where
  "array_set a i v = (if 0 \<le> i \<and> i < int (length a) then a[nat i := v] else a)"

text \<open>Step 1: the sum of squares over the whole buffer, and its root mean square.\<close>

definition sum_squares :: "real list \<Rightarrow> jsnum" where
  "sum_squares buffer =
     fold (\<lambda>i sumSquares. js_add sumSquares (js_mul (buffer_get buffer (int i)) (buffer_get buffer (int i))))
       [0..<length buffer] (Fin 0)"

definition rms_of :: "real list \<Rightarrow> jsnum" where
  "rms_of buffer = Math_sqrt (js_div (sum_squares buffer) (Fin (real (length buffer))))"

text \<open>Step 2: the range of lags.\<close>

definition minLag_of :: "real \<Rightarrow> int" where
  "minLag_of sampleRate = \<lfloor>sampleRate / MAX_FREQUENCY\<rfloor>"

definition maxLag_of :: "real \<Rightarrow> int" where
  "maxLag_of sampleRate = \<lfloor>sampleRate / MIN_FREQUENCY\<rfloor>"

text \<open>Step 3: the inner loop sums \<^verbatim>\<open>buffer[i] * buffer[i + lag]\<close> over the window; the outer
  loop stores the sum of every lag from \<open>minLag\<close> to \<open>maxLag\<close> in an array of \<open>maxLag + 1\<close>
  zeros.\<close>

definition correlation_at :: "real list \<Rightarrow> int \<Rightarrow> jsnum" where
  "correlation_at buffer lag =
     fold (\<lambda>i correlation.
             js_add correlation (js_mul (buffer_get buffer (int i)) (buffer_get buffer (int i + lag))))
       [0..<windowSize] (Fin 0)"

definition compute_correlations :: "real list \<Rightarrow> int \<Rightarrow> int \<Rightarrow> jsnum list" where
  "compute_correlations buffer minLag maxLag =
     fold (\<lambda>lag correlations. array_set correlations lag (correlation_at buffer lag))
       [minLag..maxLag] (replicate (nat (maxLag + 1)) (Fin 0))"

text \<open>Step 4: the scan for the best peak, from the lag \<open>lag\<close> on, with the current
  \<open>bestLag\<close> and \<open>maxCorrelation\<close>. Besides these two the function returns the value of the
  loop variable when the loop is left: the lag of the \<^verbatim>\<open>break\<close>, or \<open>maxLag + 1\<close>.\<close>

function find_peak :: "jsnum list \<Rightarrow> int \<Rightarrow> int \<Rightarrow> int \<Rightarrow> jsnum \<Rightarrow> int \<times> jsnum \<times> int" where
  "find_peak correlations maxLag lag bestLag maxCorrelation =
     (if lag \<le> maxLag then
        if js_gt (array_get correlations lag) (array_get correlations (lag - 1)) \<and>
           js_gt (array_get correlations lag) (array_get correlations (lag + 1))
        then
          let (bestLag', maxCorrelation') =
                (if js_gt (array_get correlations lag) maxCorrelation
                 then (lag, array_get correlations lag) else (bestLag, maxCorrelation))
          in if js_gt (array_get correlations lag) (js_mul (Fin 0.9) (array_get correlations 0))
             then (bestLag', maxCorrelation', lag)
             else find_peak correlations maxLag (lag + 1) bestLag' maxCorrelation'
        else find_peak correlations maxLag (lag + 1) bestLag maxCorrelation
      else (bestLag, maxCorrelation, lag))"
  by pat_completeness auto
termination
  by (relation "measure (\<lambda>(correlations, maxLag, lag, bestLag, maxCorrelation). nat (maxLag + 1 - lag))") auto

text \<open>Step 5: the parabola through the three correlations around \<open>bestLag\<close>.\<close>

definition refine_lag :: "jsnum list \<Rightarrow> int \<Rightarrow> int \<Rightarrow> jsnum" where
  "refine_lag correlations bestLag maxLag =
     (if 0 < bestLag \<and> bestLag < maxLag then
        let y1 = array_get correlations (bestLag - 1);
            y2 = array_get correlations bestLag;
            y3 = array_get correlations (bestLag + 1);
            a = js_div (js_sub (js_add y1 y3) (js_mul (Fin 2) y2)) (Fin 2);
            b = js_div (js_sub y3 y1) (Fin 2)
        in if js_ne a (Fin 0)
           then js_sub (Fin (of_int bestLag)) (js_div b (js_mul (Fin 2) a))
           else Fin (of_int bestLag)
      else Fin (of_int bestLag))"

text \<open>
  \<^verbatim>\<open>autocorrelate\<close>. The result \<open>-1\<close> stands for "no signal". \<^verbatim>\<open>new Float32Array(maxLag + 1)\<close>
  throws a RangeError when the length is negative; here an array of every other length is
  allocated (\<open>autocorrelate_on\<close> below has the limit of the engine).
\<close>

definition NoSignal :: jsnum where
  "NoSignal = Fin (- 1)"

definition autocorrelate :: "real list \<Rightarrow> real \<Rightarrow> js_error + jsnum" where
  "autocorrelate buffer sampleRate =
     (let rms = rms_of buffer
      in if js_lt rms (Fin MIN_RMS_THRESHOLD) then Inr NoSignal
         else
           let minLag = minLag_of sampleRate;
               maxLag = maxLag_of sampleRate
           in if maxLag + 1 < 0 then Inl RangeError
              else
                let correlations = compute_correlations buffer minLag maxLag;
                    (bestLag, maxCorrelation, lag) = find_peak correlations maxLag minLag (- 1) NegInf
                in if bestLag = - 1 \<or> js_lt maxCorrelation (Fin 0.01) then Inr NoSignal
                   else Inr (js_div (Fin sampleRate) (refine_lag correlations bestLag maxLag)))"

text \<open>
  Steps 4 and 5 as a function of the array of correlations: what \<^verbatim>\<open>autocorrelate\<close> returns
  once the array is filled. The function is defined on every array, also on one with
  infinite slots: a \<^verbatim>\<open>Float32Array\<close> stores a sum beyond the range of a 32-bit float as an
  infinity.
\<close>

definition peak_frequency :: "jsnum list \<Rightarrow> int \<Rightarrow> int \<Rightarrow> real \<Rightarrow> jsnum" where
  "peak_frequency correlations minLag maxLag sampleRate =
     (let (bestLag, maxCorrelation, lag) = find_peak correlations maxLag minLag (- 1) NegInf
      in if bestLag = - 1 \<or> js_lt maxCorrelation (Fin 0.01) then NoSignal
         else js_div (Fin sampleRate) (refine_lag correlations bestLag maxLag))"

text \<open>
  \<^verbatim>\<open>autocorrelate\<close> on an engine that allocates a typed array of at most \<open>maxLength\<close>
  elements: \<^verbatim>\<open>new Float32Array(n)\<close> throws a RangeError when \<open>n\<close> is negative or greater than
  \<open>maxLength\<close>. The language refuses every length above \<open>2^53 - 1\<close>; an engine refuses
  smaller ones as well.
\<close>

definition autocorrelate_on :: "int \<Rightarrow> real list \<Rightarrow> real \<Rightarrow> js_error + jsnum" where
  "autocorrelate_on maxLength buffer sampleRate =
     (let rms = rms_of buffer
      in if js_lt rms (Fin MIN_RMS_THRESHOLD) then Inr NoSignal
         else
           let minLag = minLag_of sampleRate;
               maxLag = maxLag_of sampleRate
           in if maxLag + 1 < 0 \<or> maxLength < maxLag + 1 then Inl RangeError
              else Inr (peak_frequency (compute_correlations buffer minLag maxLag) minLag maxLag sampleRate))"

section \<open>The application state and the animation loop\<close>

datatype TunerMode = Auto | Manual

text \<open>The texts that the program writes to the status bar.\<close>

datatype status_text =
    WaitingForAudio       \<comment> \<open>\<^verbatim>\<open>Esperando audio...\<close>\<close>
  | AutoDetecting         \<comment> \<open>\<^verbatim>\<open>Modo Auto: Detectando cualquier nota...\<close>\<close>
  | SelectAString         \<comment> \<open>\<^verbatim>\<open>Modo Manual: Selecciona una cuerda para afinar\<close>\<close>
  | TuningTo string jsnum jsnum  \<comment> \<open>\<^verbatim>\<open>Afinando a ${note}${octave} (${frequency} Hz)\<close>\<close>
  | OtherText string      \<comment> \<open>any other content\<close>

text \<open>The four arguments of a call of \<^verbatim>\<open>updateUI\<close>. What the function renders (the texts of
  the note, octave, frequency and cents displays, the needle and the colours) is a function
  of these four values alone, and is not modelled further.\<close>

record reading =
  rd_frequency :: jsnum
  rd_note :: string
  rd_octave :: jsnum
  rd_cents :: jsnum

text \<open>The variables of the module that the loop and the selection functions use, with the
  status bar and the last reading displayed. \<open>analyser\<close> says that the analyser node is not
  null. The other nodes of the page (the styles of the buttons, the display of the target)
  are written by the selection functions and read by no function; they are left out, and
  so are \<^verbatim>\<open>startAudio\<close> and \<^verbatim>\<open>stopAudio\<close>, which acquire and release the microphone.\<close>

record tuner_state =
  analyser :: bool
  isListening :: bool
  currentMode :: TunerMode
  selectedNote :: "closest_note option"
  statusBar :: status_text
  displayed :: "reading option"

definition updateUI :: "jsnum \<Rightarrow> string \<Rightarrow> jsnum \<Rightarrow> jsnum \<Rightarrow> tuner_state \<Rightarrow> tuner_state" where
  "updateUI freq note_name octave cents st =
     st\<lparr>displayed := Some \<lparr>rd_frequency = freq, rd_note = note_name, rd_octave = octave, rd_cents = cents\<rparr>\<rparr>"

text \<open>
  One tick of \<^verbatim>\<open>audioLoop\<close>. \<open>frame\<close> is what \<^verbatim>\<open>getFloatTimeDomainData\<close> has written to the
  audio buffer and \<open>sampleRate\<close> the rate of the audio context. The final
  \<^verbatim>\<open>requestAnimationFrame\<close> only schedules the next tick.
\<close>

definition audioLoop :: "real list \<Rightarrow> real \<Rightarrow> tuner_state \<Rightarrow> js_error + tuner_state" where
  "audioLoop frame sampleRate st =
     (if \<not> analyser st \<or> \<not> isListening st then Inr st
      else
        case autocorrelate frame sampleRate of
          Inl e \<Rightarrow> Inl e
        | Inr freq \<Rightarrow>
            if js_gt freq (Fin 0) then
              (case (currentMode st, selectedNote st) of
                 (Manual, Some sel) \<Rightarrow>
                   Inr (updateUI freq (cn_note sel) (cn_octave sel)
                          (calculateCents freq (cn_frequency sel)) st)
               | _ \<Rightarrow>
                   (case findClosestNote freq of
                      Inl e \<Rightarrow> Inl e
                    | Inr closest \<Rightarrow>
                        Inr (updateUI freq (cn_note closest) (cn_octave closest)
                               (calculateCents freq (cn_frequency closest)) st)))
            else Inr (st\<lparr>statusBar := WaitingForAudio\<rparr>))"

text \<open>A run of ticks, one frame each, stopping at the first exception.\<close>

fun run_ticks :: "(real list \<times> real) list \<Rightarrow> tuner_state \<Rightarrow> js_error + tuner_state" where
  "run_ticks [] st = Inr st"
| "run_ticks ((frame, sampleRate) # frames) st =
     (case audioLoop frame sampleRate st of
        Inl e \<Rightarrow> Inl e
      | Inr st' \<Rightarrow> run_ticks frames st')"

section \<open>Mode and note selection\<close>

definition setAutoMode :: "tuner_state \<Rightarrow> tuner_state" where
  "setAutoMode st =
     (let st1 = st\<lparr>currentMode := Auto, selectedNote := None\<rparr>
      in if isListening st1 then st1\<lparr>statusBar := AutoDetecting\<rparr> else st1)"

definition setManualMode :: "tuner_state \<Rightarrow> tuner_state" where
  "setManualMode st =
     (let st1 = st\<lparr>currentMode := Manual\<rparr>
      in if isListening st1 \<and> selectedNote st1 = None then st1\<lparr>statusBar := SelectAString\<rparr> else st1)"

definition selectNote :: "string \<Rightarrow> jsnum \<Rightarrow> jsnum \<Rightarrow> tuner_state \<Rightarrow> tuner_state" where
  "selectNote note_name octave freq st =
     (let st1 = st\<lparr>selectedNote := Some \<lparr>cn_note = note_name, cn_octave = octave, cn_frequency = freq\<rparr>\<rparr>;
          st2 = (if currentMode st1 \<noteq> Manual then setManualMode st1 else st1)
      in if isListening st2 then st2\<lparr>statusBar := TuningTo note_name octave freq\<rparr> else st2)"

section \<open>What is left to the engine\<close>

text \<open>
  The table of notes and \<^verbatim>\<open>findClosestNote\<close> compute with doubles. Every arithmetic operator
  rounds its exact result to a double, and \<^verbatim>\<open>Math.pow\<close> and \<^verbatim>\<open>Math.log2\<close> are, in the words of
  the language, implementation-approximated. An engine gives these three functions: the
  rounding of a real number to a double, the value of \<^verbatim>\<open>Math.pow(2, x)\<close> and the value of
  \<^verbatim>\<open>Math.log2(x)\<close> for a positive \<open>x\<close>. The engine \<open>exact_engine\<close> is the one of the definitions
  above: it rounds nothing and has the exact power and logarithm. Overflow of a double is
  not part of an engine; the numbers of the table and of the nearest note are far from it.
\<close>

record js_engine =
  round_double :: "real \<Rightarrow> real"
  pow2_of :: "real \<Rightarrow> real"
  log2_of :: "real \<Rightarrow> real"

definition exact_engine :: js_engine where
  "exact_engine = \<lparr>round_double = (\<lambda>x. x), pow2_of = Math_pow2, log2_of = log 2\<rparr>"

text \<open>The rounding of the result of an operator: a finite result is rounded, an infinity
  and NaN stay. \<^verbatim>\<open>Math.log2\<close> on an engine.\<close>

definition js_rounded :: "js_engine \<Rightarrow> jsnum \<Rightarrow> jsnum" where
  "js_rounded E a = (case a of Fin x \<Rightarrow> Fin (round_double E x) | _ \<Rightarrow> a)"

fun Math_log2_on :: "js_engine \<Rightarrow> jsnum \<Rightarrow> jsnum" where
  "Math_log2_on E (Fin x) = (if x < 0 then NaN else if x = 0 then NegInf else Fin (log2_of E x))"
| "Math_log2_on E PosInf = PosInf"
| "Math_log2_on E _ = NaN"

text \<open>The table on an engine: the quotient \<^verbatim>\<open>(noteNumber - 57) / 12\<close> and the product with
  440 are rounded, the difference \<^verbatim>\<open>noteNumber - 57\<close> of two small integers is exact.\<close>

definition push_note_on :: "js_engine \<Rightarrow> nat \<Rightarrow> nat \<Rightarrow> note_entry list \<Rightarrow> note_entry list" where
  "push_note_on E octave i tbl =
     (let noteNumber = octave * 12 + i;
          frequency = round_double E (440 * pow2_of E (round_double E ((real noteNumber - 57) / 12)))
      in tbl @ [\<lparr>ne_note = NOTE_NAMES ! i, ne_frequency = frequency\<rparr>])"

definition NOTE_FREQUENCIES_on :: "js_engine \<Rightarrow> note_entry list" where
  "NOTE_FREQUENCIES_on E = fold (\<lambda>octave. fold (push_note_on E octave) [0..<12]) [0..<9] []"

text \<open>
  \<^verbatim>\<open>findClosestNote\<close> on an engine: the quotient \<^verbatim>\<open>frequency / 440\<close> and the product with 12 are
  rounded and the logarithm is the engine's. \<^verbatim>\<open>Math.round\<close>, the sum of an integer and 57,
  the comparisons and, for an index in \<open>[0, 108)\<close>, \<^verbatim>\<open>Math.floor(noteIndex / 12)\<close> are exact.
\<close>

definition findClosestNote_on :: "js_engine \<Rightarrow> jsnum \<Rightarrow> js_error + closest_note" where
  "findClosestNote_on E freq =
     (let semitones = js_rounded E (js_mul (Fin 12) (Math_log2_on E (js_rounded E (js_div freq (Fin 440)))));
          noteIndex = js_add (Math_round semitones) (Fin 57)
      in if js_lt noteIndex (Fin 0) \<or> js_ge noteIndex (Fin (real (length (NOTE_FREQUENCIES_on E))))
         then Inr \<lparr>cn_note = ''--'', cn_octave = Fin 0, cn_frequency = Fin 0\<rparr>
         else (case noteIndex of
                 Fin x \<Rightarrow>
                   (let octave = \<lfloor>x / 12\<rfloor>;
                        noteInOctave = nat \<lfloor>x\<rfloor> mod 12;
                        targetFrequency = ne_frequency (NOTE_FREQUENCIES_on E ! nat \<lfloor>x\<rfloor>)
                    in Inr \<lparr>cn_note = NOTE_NAMES ! noteInOctave,
                            cn_octave = Fin (of_int octave),
                            cn_frequency = Fin targetFrequency\<rparr>)
               | _ \<Rightarrow> Inl TypeError))"

section \<open>Closed forms, predicates and examples used in the statements\<close>

text \<open>The entry that the inner loop pushes for semitone \<open>i\<close> of an octave, and the closed form
  of the entry with index \<open>i\<close>.\<close>

definition pushed_entry :: "nat \<Rightarrow> nat \<Rightarrow> note_entry" where
  "pushed_entry octave i =
     \<lparr>ne_note = NOTE_NAMES ! i, ne_frequency = 440 * Math_pow2 ((real (octave * 12 + i) - 57) / 12)\<rparr>"

definition table_entry :: "nat \<Rightarrow> note_entry" where
  "table_entry i = \<lparr>ne_note = NOTE_NAMES ! (i mod 12), ne_frequency = 440 * 2 powr ((real i - 57) / 12)\<rparr>"

text \<open>The same two entries on an engine.\<close>

definition pushed_entry_on :: "js_engine \<Rightarrow> nat \<Rightarrow> nat \<Rightarrow> note_entry" where
  "pushed_entry_on E octave i =
     \<lparr>ne_note = NOTE_NAMES ! i,
      ne_frequency = round_double E (440 * pow2_of E (round_double E ((real (octave * 12 + i) - 57) / 12)))\<rparr>"

definition table_entry_on :: "js_engine \<Rightarrow> nat \<Rightarrow> note_entry" where
  "table_entry_on E i =
     \<lparr>ne_note = NOTE_NAMES ! (i mod 12),
      ne_frequency = round_double E (440 * pow2_of E (round_double E ((real i - 57) / 12)))\<rparr>"

text \<open>
  An engine is accurate to \<open>u\<close> when, on the arguments that the table needs, a rounded
  result and \<^verbatim>\<open>Math.pow(2, x)\<close> have a relative error of at most \<open>u\<close>, and 0, 440 and
  \<^verbatim>\<open>Math.pow(2, 0) = 1\<close> are exact. IEEE arithmetic rounds to the nearest double, a relative
  error of at most \<open>2^-53\<close> in this range; 0 and 440 are doubles; the language fixes
  \<^verbatim>\<open>Math.pow(x, 0) = 1\<close>; a power that is right to one unit in the last place has a relative
  error of at most \<open>2^-52\<close>.
\<close>

definition accurate :: "js_engine \<Rightarrow> real \<Rightarrow> bool" where
  "accurate E u \<longleftrightarrow>
     0 \<le> u \<and> round_double E 0 = 0 \<and> round_double E 440 = 440 \<and> pow2_of E 0 = 1 \<and>
     (\<forall>x. 1 / 16 \<le> \<bar>x\<bar> \<and> \<bar>x\<bar> \<le> 16384 \<longrightarrow> \<bar>round_double E x - x\<bar> \<le> u * \<bar>x\<bar>) \<and>
     (\<forall>x. \<bar>x\<bar> \<le> 5 \<longrightarrow> \<bar>pow2_of E x - 2 powr x\<bar> \<le> u * 2 powr x)"

text \<open>
  The doubles of IEEE arithmetic with a correctly rounded power for the entries with the
  indices 2 and 14, the D of the octaves 0 and 1. The quotients \<open>- 55 / 12\<close> and \<open>- 43 / 12\<close>
  round to \<^verbatim>\<open>-4.583333333333333\<close> and \<^verbatim>\<open>-3.5833333333333335\<close>, the powers of 2 are
  \<^verbatim>\<open>0.04171374544281358\<close> and \<^verbatim>\<open>0.08342749088562713\<close>, and the products with 440 round to
  \<^verbatim>\<open>18.354047994837977\<close> and \<^verbatim>\<open>36.70809598967594\<close>. Every double is written as the fraction
  that it is. On all other arguments the engine is exact. The engine is accurate to
  \<open>2^-53\<close> (lemma \<open>accurate_sample\<close>).
\<close>

definition table_sample :: js_engine where
  "table_sample =
     \<lparr>round_double =
        (\<lambda>x. if x = - 55 / 12 then - 5160374573028693 / 1125899906842624
             else if x = - 43 / 12 then - 8068949332372139 / 2251799813685248
             else if x = 440 * (6011584269839455 / 144115188075855872)
               then 2583102615946641 / 140737488355328
             else if x = 440 * (6011584269839453 / 72057594037927936)
               then 161443913496665 / 4398046511104
             else x),
      pow2_of =
        (\<lambda>x. if x = - 5160374573028693 / 1125899906842624
               then 6011584269839455 / 144115188075855872
             else if x = - 8068949332372139 / 2251799813685248
               then 6011584269839453 / 72057594037927936
             else 2 powr x),
      log2_of = log 2\<rparr>"

text \<open>
  The doubles of \<^verbatim>\<open>findClosestNote(427.4740541075866)\<close>. The argument is the double that
  \<^verbatim>\<open>Math.sqrt\<close> gives for the product of the frequencies of G#4 and A4, the entries 56 and
  57. Its quotient by 440 rounds to \<^verbatim>\<open>0.9715319411536059\<close>, the logarithm of that is
  \<^verbatim>\<open>-0.04166666666666668\<close>, and the product with 12 rounds to \<^verbatim>\<open>-0.5000000000000001\<close>. On
  all other arguments the engine is exact.
\<close>

definition midpoint_sample :: js_engine where
  "midpoint_sample =
     \<lparr>round_double =
        (\<lambda>x. if x = 7520203089021415 / 17592186044416 / 440
               then 2187695444078957 / 2251799813685248
             else if x = 12 * (- 6004799503160663 / 144115188075855872)
               then - 4503599627370497 / 9007199254740992
             else x),
      pow2_of = Math_pow2,
      log2_of =
        (\<lambda>x. if x = 2187695444078957 / 2251799813685248
               then - 6004799503160663 / 144115188075855872
             else log 2 x)\<rparr>"

text \<open>The two tests of the scan: a lag is a candidate when its correlation exceeds both
  neighbours, and the scan stops at a candidate whose correlation exceeds \<open>0.9\<close> times
  the slot of lag 0.\<close>

definition is_peak :: "jsnum list \<Rightarrow> int \<Rightarrow> bool" where
  "is_peak correlations lag \<longleftrightarrow>
     js_gt (array_get correlations lag) (array_get correlations (lag - 1)) \<and>
     js_gt (array_get correlations lag) (array_get correlations (lag + 1))"

definition exceeds_baseline :: "jsnum list \<Rightarrow> int \<Rightarrow> bool" where
  "exceeds_baseline correlations lag \<longleftrightarrow>
     js_gt (array_get correlations lag) (js_mul (Fin 0.9) (array_get correlations 0))"

text \<open>
  What the scan has done when it returns \<open>(bestLag', maxCorrelation', stop)\<close>, started at
  \<open>lag\<close> with \<open>bestLag\<close> and \<open>maxCorrelation\<close>: it stopped at the first candidate above the
  baseline, or ran past \<open>maxLag\<close>; the best lag is unchanged or a candidate it visited, and
  no candidate it visited has a correlation above \<open>maxCorrelation'\<close>.
\<close>

definition peak_result :: "jsnum list \<Rightarrow> int \<Rightarrow> int \<Rightarrow> int \<Rightarrow> jsnum \<Rightarrow> int \<Rightarrow> jsnum \<Rightarrow> int \<Rightarrow> bool" where
  "peak_result cs maxLag lag b m b' m' s \<longleftrightarrow>
     ((s \<le> maxLag \<and> lag \<le> s \<and> is_peak cs s \<and> exceeds_baseline cs s) \<or>
      (maxLag < s \<and> s = max lag (maxLag + 1))) \<and>
     (\<forall>l. lag \<le> l \<and> l < s \<and> l \<le> maxLag \<longrightarrow> \<not> (is_peak cs l \<and> exceeds_baseline cs l)) \<and>
     ((b' = b \<and> m' = m) \<or>
      (lag \<le> b' \<and> b' \<le> s \<and> b' \<le> maxLag \<and> is_peak cs b' \<and> m' = array_get cs b' \<and> js_gt m' m)) \<and>
     (\<forall>l. lag \<le> l \<and> l \<le> s \<and> l \<le> maxLag \<and> is_peak cs l \<longrightarrow> \<not> js_gt (array_get cs l) m')"

text \<open>A frame for the examples: 4096 samples, all zero but three impulses, at the sample
  rate 1760 (lags 1 to 27). Its correlation is 1 at lag 4 and 3 at the lags 10 and 14.\<close>

definition example_frame :: "real list" where
  "example_frame = map (\<lambda>i. if i = 0 \<or> i = 4 then 1 else if i = 14 then 3 else 0) [0..<4096]"

text \<open>Three more frames of 4096 samples: silence, a constant signal, and a frame with
  enough energy whose correlations stay below the floor of 0.01; and a frame of only 100
  samples.\<close>

definition silent_frame :: "real list" where
  "silent_frame = replicate 4096 0"

definition constant_frame :: "real list" where
  "constant_frame = replicate 4096 1"

definition faint_frame :: "real list" where
  "faint_frame = map (\<lambda>i. if i = 0 \<or> i = 4 then 0.05 else if i = 3000 then 1 else 0) [0..<4096]"

definition short_frame :: "real list" where
  "short_frame = replicate 100 1"

text \<open>
  The slots 0 to 27 that the array of correlations holds, at the sample rate 1760, for a
  frame of 4096 samples that are zero but for \<open>2^67\<close> at index 0, \<open>- 2^67\<close> at index 3 and 1 at
  the indices 100 and 104: the sum of lag 3 is \<open>- 2^134\<close>, beyond the range of a 32-bit
  float, and is stored as \<open>-Infinity\<close>; the sum of lag 4 is 1; the other sums are 0.
\<close>

definition overflow_slots :: "jsnum list" where
  "overflow_slots = (replicate 28 (Fin 0))[3 := NegInf, 4 := Fin 1]"

text \<open>The state at the first tick after \<^verbatim>\<open>startAudio\<close> has been granted the microphone:
  listening, with the initial mode, no note selected and nothing displayed yet.\<close>

definition listening_state :: tuner_state where
  "listening_state =
     \<lparr>analyser = True, isListening = True, currentMode = Auto, selectedNote = None,
      statusBar = OtherText ''Escuchando... Toca una cuerda'', displayed = None\<rparr>"

section \<open>The note table\<close>

lemma fold_push_note:
  "fold (push_note octave) [0..<n] tbl = tbl @ map (pushed_entry octave) [0..<n]"
  by (induction n) (simp_all add: push_note_def pushed_entry_def)

lemma octave_entries:
  "map (pushed_entry octave) [0..<12] = map table_entry [octave * 12..<octave * 12 + 12]"
  by (rule nth_equalityI) (simp_all add: pushed_entry_def table_entry_def Math_pow2_def add.commute)

lemma fold_octaves:
  "fold (\<lambda>octave. fold (push_note octave) [0..<12]) [0..<n] tbl = tbl @ map table_entry [0..<n * 12]"
proof (induction n)
  case 0
  show ?case by simp
next
  case (Suc n)
  have split: "[0..<Suc n * 12] = [0..<n * 12] @ [n * 12..<n * 12 + 12]"
    using upt_add_eq_append [of 0 "n * 12" 12] by (simp add: add.commute)
  have "fold (\<lambda>octave. fold (push_note octave) [0..<12]) [0..<Suc n] tbl
        = fold (push_note n) [0..<12] (tbl @ map table_entry [0..<n * 12])"
    using Suc by simp
  also have "\<dots> = (tbl @ map table_entry [0..<n * 12]) @ map table_entry [n * 12..<n * 12 + 12]"
    by (simp only: fold_push_note octave_entries)
  also have "\<dots> = tbl @ map table_entry [0..<Suc n * 12]"
    by (simp only: split map_append append_assoc)
  finally show ?case .
qed

lemma NOTE_FREQUENCIES_eq: "NOTE_FREQUENCIES = map table_entry [0..<108]"
  by (simp add: NOTE_FREQUENCIES_def fold_octaves)

lemma length_NOTE_FREQUENCIES: "length NOTE_FREQUENCIES = 108"
  by (simp add: NOTE_FREQUENCIES_eq)

lemma nth_NOTE_FREQUENCIES: "i < 108 \<Longrightarrow> NOTE_FREQUENCIES ! i = table_entry i"
  by (simp add: NOTE_FREQUENCIES_eq)

lemma freq_octave: "ne_frequency (table_entry (i + 12)) = 2 * ne_frequency (table_entry i)"
proof -
  have e: "(real (i + 12) - 57) / 12 = (real i - 57) / 12 + 1" by (simp add: field_simps)
  have "2 powr ((real (i + 12) - 57) / 12) = 2 powr ((real i - 57) / 12) * 2 powr 1"
    by (simp only: e powr_add)
  then show ?thesis by (simp add: table_entry_def)
qed

lemma fold_push_note_on:
  "fold (push_note_on E octave) [0..<n] tbl = tbl @ map (pushed_entry_on E octave) [0..<n]"
  by (induction n) (simp_all add: push_note_on_def pushed_entry_on_def)

lemma octave_entries_on:
  "map (pushed_entry_on E octave) [0..<12] = map (table_entry_on E) [octave * 12..<octave * 12 + 12]"
  by (rule nth_equalityI) (simp_all add: pushed_entry_on_def table_entry_on_def add.commute)

lemma fold_octaves_on:
  "fold (\<lambda>octave. fold (push_note_on E octave) [0..<12]) [0..<n] tbl
   = tbl @ map (table_entry_on E) [0..<n * 12]"
proof (induction n)
  case 0
  show ?case by simp
next
  case (Suc n)
  have split: "[0..<Suc n * 12] = [0..<n * 12] @ [n * 12..<n * 12 + 12]"
    using upt_add_eq_append [of 0 "n * 12" 12] by (simp add: add.commute)
  have "fold (\<lambda>octave. fold (push_note_on E octave) [0..<12]) [0..<Suc n] tbl
        = fold (push_note_on E n) [0..<12] (tbl @ map (table_entry_on E) [0..<n * 12])"
    using Suc by simp
  also have "\<dots> = (tbl @ map (table_entry_on E) [0..<n * 12]) @ map (table_entry_on E) [n * 12..<n * 12 + 12]"
    by (simp only: fold_push_note_on octave_entries_on)
  also have "\<dots> = tbl @ map (table_entry_on E) [0..<Suc n * 12]"
    by (simp only: split map_append append_assoc)
  finally show ?case .
qed

lemma NOTE_FREQUENCIES_on_eq: "NOTE_FREQUENCIES_on E = map (table_entry_on E) [0..<108]"
  by (simp add: NOTE_FREQUENCIES_on_def fold_octaves_on)

lemma length_NOTE_FREQUENCIES_on: "length (NOTE_FREQUENCIES_on E) = 108"
  by (simp add: NOTE_FREQUENCIES_on_eq)

lemma nth_NOTE_FREQUENCIES_on: "i < 108 \<Longrightarrow> NOTE_FREQUENCIES_on E ! i = table_entry_on E i"
  by (simp add: NOTE_FREQUENCIES_on_eq)

lemma table_entry_exact: "table_entry_on exact_engine i = table_entry i"
  by (simp add: table_entry_on_def table_entry_def exact_engine_def Math_pow2_def)

lemma NOTE_FREQUENCIES_exact: "NOTE_FREQUENCIES_on exact_engine = NOTE_FREQUENCIES"
  by (simp add: NOTE_FREQUENCIES_on_eq NOTE_FREQUENCIES_eq table_entry_exact)

text \<open>The error of an entry of the table on an accurate engine: the rounding of the
  exponent, the power and the rounding of the product. Then the accuracy of the two
  engines of the examples; for the one with the doubles of IEEE arithmetic the two powers
  are enclosed between rational bounds.\<close>

lemma pow2_small:
  fixes t :: real
  assumes "\<bar>t\<bar> \<le> 1"
  shows "\<bar>2 powr t - 1\<bar> \<le> 2 * \<bar>t\<bar>"
proof -
  have l0: "0 < ln (2::real)" by simp
  have l1: "ln (2::real) < 1" by (rule ln_2_less_1)
  have p: "2 powr t = exp (t * ln 2)" by (simp add: powr_def)
  show ?thesis
  proof (cases "0 \<le> t")
    case True
    define y where "y = t * ln 2"
    have y0: "0 \<le> y" using True l0 by (simp add: y_def)
    have "t * ln 2 \<le> t * 1" using True l1 by (intro mult_left_mono) simp_all
    then have yt: "y \<le> t" by (simp add: y_def)
    with assms True have y1: "y \<le> 1" by simp
    have "y\<^sup>2 \<le> y * 1" unfolding power2_eq_square using y0 y1 by (intro mult_left_mono) simp_all
    then have ysq: "y\<^sup>2 \<le> y" by simp
    have "exp y \<le> 1 + y + y\<^sup>2" using y0 y1 by (rule exp_bound)
    with ysq yt have "exp y \<le> 1 + 2 * t" by linarith
    moreover have "1 \<le> exp y" using y0 by simp
    ultimately show ?thesis using True by (simp add: p y_def)
  next
    case False
    define y where "y = t * ln 2"
    have tneg: "t < 0" using False by simp
    have "t * 1 \<le> t * ln 2" using tneg l1 by (intro mult_left_mono_neg) simp_all
    then have ty: "t \<le> y" by (simp add: y_def)
    have y0: "y \<le> 0" using tneg l0 by (simp add: y_def mult_le_0_iff)
    have "1 + y \<le> exp y" by (rule exp_ge_add_one_self)
    with ty have "1 + t \<le> exp y" by linarith
    moreover have "exp y \<le> 1" using y0 by simp
    ultimately show ?thesis using tneg by (simp add: p y_def)
  qed
qed

lemma rel_compose:
  fixes a b c :: real
  assumes "\<bar>a - b\<bar> \<le> \<alpha> * b" and "\<bar>c - a\<bar> \<le> \<beta> * a" and "0 \<le> \<beta>"
  shows "\<bar>c - b\<bar> \<le> (\<alpha> + \<beta> + \<alpha> * \<beta>) * b"
proof -
  from assms(1) have "a \<le> b + \<alpha> * b" by linarith
  then have "\<beta> * a \<le> \<beta> * (b + \<alpha> * b)" using assms(3) by (rule mult_left_mono)
  with assms(2) have "\<bar>c - a\<bar> \<le> \<beta> * b + \<alpha> * \<beta> * b" by (simp add: algebra_simps)
  moreover have "\<bar>c - b\<bar> \<le> \<bar>c - a\<bar> + \<bar>a - b\<bar>" by linarith
  ultimately have "\<bar>c - b\<bar> \<le> \<beta> * b + \<alpha> * \<beta> * b + \<alpha> * b" using assms(1) by linarith
  then show ?thesis by (simp add: algebra_simps)
qed

lemma entry_accurate:
  assumes acc: "accurate E u" and u: "u \<le> 1 / 1000" and i: "i < 108"
  shows "\<bar>ne_frequency (table_entry_on E i) - ne_frequency (table_entry i)\<bar>
         \<le> 12 * u * ne_frequency (table_entry i)"
proof (cases "i = 57")
  case True
  with acc show ?thesis
    by (simp add: table_entry_on_def table_entry_def accurate_def)
next
  case False
  from acc have u0: "0 \<le> u"
    and rd: "\<And>x. 1 / 16 \<le> \<bar>x\<bar> \<Longrightarrow> \<bar>x\<bar> \<le> 16384 \<Longrightarrow> \<bar>round_double E x - x\<bar> \<le> u * \<bar>x\<bar>"
    and pw: "\<And>x. \<bar>x\<bar> \<le> 5 \<Longrightarrow> \<bar>pow2_of E x - 2 powr x\<bar> \<le> u * 2 powr x"
    by (simp_all add: accurate_def)
  define x where "x = (real i - 57) / 12"
  define x' where "x' = round_double E x"
  define t where "t = x' - x"
  define F where "F = 440 * 2 powr x"
  define T1 where "T1 = 440 * 2 powr x'"
  define T2 where "T2 = 440 * pow2_of E x'"
  define m where "m = round_double E T2"
  have "1 \<le> \<bar>real i - 57\<bar>" using False by linarith
  then have xl: "1 / 16 \<le> \<bar>x\<bar>" by (simp add: x_def)
  have xu: "\<bar>x\<bar> \<le> 19 / 4" using i by (simp add: x_def abs_le_iff)
  have "\<bar>x' - x\<bar> \<le> u * \<bar>x\<bar>" unfolding x'_def using xl xu by (intro rd) simp_all
  moreover have "u * \<bar>x\<bar> \<le> u * (19 / 4)" using u0 xu by (rule mult_left_mono [rotated])
  ultimately have tb: "\<bar>t\<bar> \<le> 19 / 4 * u" by (simp add: t_def)
  with u have t1: "\<bar>t\<bar> \<le> 1" by simp
  have x'5: "\<bar>x'\<bar> \<le> 5"
  proof -
    have "\<bar>x'\<bar> \<le> \<bar>x\<bar> + \<bar>t\<bar>" by (simp add: t_def)
    with xu tb u show ?thesis by simp
  qed
  have Fpos: "0 < F" by (simp add: F_def)
  have Flo: "55 / 4 \<le> F"
  proof -
    have "2 powr (- 5) \<le> 2 powr x"
      using xu by (intro powr_mono) (simp_all add: abs_le_iff)
    moreover have "2 powr (- 5 :: real) = 1 / 32" by (simp add: powr_minus_divide)
    ultimately show ?thesis by (simp add: F_def)
  qed
  have Fhi: "F \<le> 14080"
  proof -
    have "2 powr x \<le> 2 powr 5"
      using xu by (intro powr_mono) (simp_all add: abs_le_iff)
    then show ?thesis by (simp add: F_def)
  qed
  have s1: "\<bar>T1 - F\<bar> \<le> (19 / 2 * u) * F"
  proof -
    have "2 powr x' = 2 powr x * 2 powr t"
      by (simp add: t_def powr_add [symmetric])
    then have "T1 - F = F * (2 powr t - 1)"
      by (simp add: T1_def F_def algebra_simps)
    then have "\<bar>T1 - F\<bar> = F * \<bar>2 powr t - 1\<bar>"
      using Fpos by (simp add: abs_mult)
    also have "\<dots> \<le> F * (2 * \<bar>t\<bar>)"
      using Fpos pow2_small [OF t1] by (intro mult_left_mono) simp_all
    also have "\<dots> \<le> F * (19 / 2 * u)"
      using Fpos tb by (intro mult_left_mono) simp_all
    finally show ?thesis by (simp add: mult.commute)
  qed
  have s2: "\<bar>T2 - T1\<bar> \<le> u * T1"
  proof -
    define d where "d = pow2_of E x' - 2 powr x'"
    have "T2 - T1 = 440 * d"
      by (simp add: T2_def T1_def d_def algebra_simps)
    then have "\<bar>T2 - T1\<bar> = 440 * \<bar>d\<bar>"
      by (simp add: abs_mult)
    also have "\<dots> \<le> 440 * (u * 2 powr x')"
      using pw [OF x'5] by (intro mult_left_mono) (simp_all add: d_def)
    finally show ?thesis by (simp add: T1_def)
  qed
  have usq: "u * u \<le> u / 1000"
    using mult_left_mono [OF u u0] by simp
  from rel_compose [OF s1 s2 u0]
  have c2: "\<bar>T2 - F\<bar> \<le> (19 / 2 * u + u + 19 / 2 * u * u) * F" .
  have a2: "19 / 2 * u + u + 19 / 2 * u * u \<le> 1 / 50"
    using u usq u0 by simp
  have "(19 / 2 * u + u + 19 / 2 * u * u) * F \<le> 1 / 50 * F"
    using a2 Fpos by (intro mult_right_mono) simp_all
  with c2 have T2F: "\<bar>T2 - F\<bar> \<le> F / 50" by simp
  have T2lo: "1 / 16 \<le> \<bar>T2\<bar>" using T2F Flo by linarith
  have T2hi: "\<bar>T2\<bar> \<le> 16384" using T2F Fhi Fpos by linarith
  have T2pos: "0 < T2" using T2F Fpos by linarith
  have s3: "\<bar>m - T2\<bar> \<le> u * T2"
    using rd [OF T2lo T2hi] T2pos by (simp add: m_def)
  from rel_compose [OF c2 s3 u0]
  have c3: "\<bar>m - F\<bar> \<le> (19 / 2 * u + u + 19 / 2 * u * u + u + (19 / 2 * u + u + 19 / 2 * u * u) * u) * F" .
  have uu: "u * u \<le> u" using usq u0 by linarith
  have "u * u * u \<le> u / 1000 * u"
    using usq u0 by (intro mult_right_mono) simp_all
  also have "\<dots> = (u * u) / 1000" by simp
  also have "\<dots> \<le> u / 1000" using uu by simp
  finally have ucb: "u * u * u \<le> u / 1000" .
  have "19 / 2 * u + u + 19 / 2 * u * u + u + (19 / 2 * u + u + 19 / 2 * u * u) * u
        = 23 / 2 * u + 20 * (u * u) + 19 / 2 * (u * u * u)"
    by (simp add: algebra_simps)
  also have "\<dots> \<le> 12 * u" using usq ucb u0 by simp
  finally have "(19 / 2 * u + u + 19 / 2 * u * u + u + (19 / 2 * u + u + 19 / 2 * u * u) * u) * F
      \<le> 12 * u * F"
    using Fpos by (intro mult_right_mono) simp_all
  with c3 have "\<bar>m - F\<bar> \<le> 12 * u * F" by linarith
  then show ?thesis
    by (simp add: table_entry_on_def table_entry_def m_def T2_def x'_def x_def F_def)
qed

lemma semitone_ratio: "21 / 20 \<le> 2 powr (1 / 12 :: real)"
proof -
  have "(21 / 20 :: real) ^ 12 \<le> 2" by (simp add: power_divide)
  then have "((21 / 20 :: real) ^ 12) powr (1 / 12) \<le> 2 powr (1 / 12)"
    by (intro powr_mono2) simp_all
  moreover have "((21 / 20 :: real) ^ 12) powr (1 / 12) = 21 / 20"
  proof -
    have "((21 / 20 :: real) ^ 12) = (21 / 20) powr 12" by simp
    then have "((21 / 20 :: real) ^ 12) powr (1 / 12) = ((21 / 20) powr 12) powr (1 / 12)" by simp
    also have "\<dots> = (21 / 20) powr (12 * (1 / 12))" by (rule powr_powr)
    also have "\<dots> = 21 / 20" by simp
    finally show ?thesis .
  qed
  ultimately show ?thesis by simp
qed

lemma freq_step:
  assumes "i < j"
  shows "21 / 20 * ne_frequency (table_entry i) \<le> ne_frequency (table_entry j)"
proof -
  have "(real i - 57) / 12 + 1 / 12 \<le> (real j - 57) / 12"
    using assms by (simp add: field_simps)
  then have "2 powr ((real i - 57) / 12 + 1 / 12) \<le> 2 powr ((real j - 57) / 12)"
    by (intro powr_mono) simp_all
  then have "2 powr ((real i - 57) / 12) * 2 powr (1 / 12) \<le> 2 powr ((real j - 57) / 12)"
    by (simp only: powr_add)
  moreover have "2 powr ((real i - 57) / 12) * (21 / 20) \<le> 2 powr ((real i - 57) / 12) * 2 powr (1 / 12)"
    using semitone_ratio by (intro mult_left_mono) simp_all
  ultimately have "2 powr ((real i - 57) / 12) * (21 / 20) \<le> 2 powr ((real j - 57) / 12)"
    by linarith
  then show ?thesis by (simp add: table_entry_def)
qed

lemma entry_mono:
  assumes "accurate E u" and "u \<le> 1 / 1000" and "i < j" and "j < 108"
  shows "ne_frequency (table_entry_on E i) < ne_frequency (table_entry_on E j)"
proof -
  define Fi where "Fi = ne_frequency (table_entry i)"
  define Fj where "Fj = ne_frequency (table_entry j)"
  have u0: "0 \<le> u" using assms(1) by (simp add: accurate_def)
  have pos: "0 < Fi" by (simp add: Fi_def table_entry_def)
  have st: "21 / 20 * Fi \<le> Fj" unfolding Fi_def Fj_def by (rule freq_step [OF assms(3)])
  then have posj: "0 < Fj" using pos by linarith
  from assms(3,4) have i: "i < 108" by simp
  have ei: "\<bar>ne_frequency (table_entry_on E i) - Fi\<bar> \<le> 12 * u * Fi"
    unfolding Fi_def by (rule entry_accurate [OF assms(1,2) i])
  have ej: "\<bar>ne_frequency (table_entry_on E j) - Fj\<bar> \<le> 12 * u * Fj"
    unfolding Fj_def by (rule entry_accurate [OF assms(1,2,4)])
  have "12 * u * Fi \<le> 12 / 1000 * Fi"
    using assms(2) pos by (intro mult_right_mono) simp_all
  with ei have hi: "ne_frequency (table_entry_on E i) \<le> 1012 / 1000 * Fi" by linarith
  have "12 * u * Fj \<le> 12 / 1000 * Fj"
    using assms(2) posj by (intro mult_right_mono) simp_all
  with ej have lo: "988 / 1000 * Fj \<le> ne_frequency (table_entry_on E j)" by linarith
  from hi lo st pos show ?thesis by linarith
qed

lemma entry_octave:
  assumes "accurate E u" and "u \<le> 1 / 1000" and "i + 12 < 108"
  shows "\<bar>ne_frequency (table_entry_on E (i + 12)) - 2 * ne_frequency (table_entry_on E i)\<bar>
         \<le> 50 * u * ne_frequency (table_entry_on E i)"
proof -
  define F where "F = ne_frequency (table_entry i)"
  define m where "m = ne_frequency (table_entry_on E i)"
  define m' where "m' = ne_frequency (table_entry_on E (i + 12))"
  have u0: "0 \<le> u" using assms(1) by (simp add: accurate_def)
  have pos: "0 < F" by (simp add: F_def table_entry_def)
  have oct: "ne_frequency (table_entry (i + 12)) = 2 * F"
    unfolding F_def by (rule freq_octave)
  from assms(3) have i: "i < 108" by simp
  have e1: "\<bar>m - F\<bar> \<le> 12 * u * F"
    unfolding F_def m_def by (rule entry_accurate [OF assms(1,2) i])
  have e2: "\<bar>m' - 2 * F\<bar> \<le> 12 * u * (2 * F)"
    using entry_accurate [OF assms(1,2,3)] by (simp add: oct m'_def)
  define w where "w = u * F"
  have w0: "0 \<le> w" using u0 pos by (simp add: w_def)
  have "u * F \<le> 1 / 1000 * F" using assms(2) pos by (intro mult_right_mono) simp_all
  then have wF: "1000 * w \<le> F" by (simp add: w_def)
  from e1 have e1': "\<bar>m - F\<bar> \<le> 12 * w" by (simp add: w_def)
  from e2 have e2': "\<bar>m' - 2 * F\<bar> \<le> 24 * w" by (simp add: w_def)
  have um: "u * m \<ge> u * (F - 12 * w)"
    using e1' u0 by (intro mult_left_mono) linarith+
  have "u * (12 * w) \<le> 1 / 1000 * (12 * w)"
    using assms(2) w0 by (intro mult_right_mono) simp_all
  with um have "u * m \<ge> w - 12 / 1000 * w" by (simp add: w_def algebra_simps)
  with w0 have "48 * w \<le> 50 * (u * m)" by linarith
  moreover from e1' e2' have "\<bar>m' - 2 * m\<bar> \<le> 48 * w" by linarith
  ultimately show ?thesis by (simp add: m_def m'_def)
qed

lemma accurate_exact: "accurate exact_engine 0"
  by (simp add: accurate_def exact_engine_def Math_pow2_def)

lemma sample_entries:
  "ne_frequency (table_entry_on table_sample 2) = 2583102615946641 / 140737488355328"
  "ne_frequency (table_entry_on table_sample 14) = 161443913496665 / 4398046511104"
  by (simp_all add: table_entry_on_def table_sample_def)

lemma ln2_bounds: "2 / 3 \<le> ln (2::real)" "ln (2::real) \<le> 7 / 10"
proof -
  have "exp (1 / 12 :: real) \<le> 1 + 1 / 12 + (1 / 12)\<^sup>2" by (rule exp_bound) simp_all
  then have "exp (1 / 12 :: real) \<le> 157 / 144" by (simp add: power2_eq_square)
  then have "exp (1 / 12 :: real) ^ 8 \<le> (157 / 144) ^ 8" by (intro power_mono) simp_all
  moreover have "(157 / 144 :: real) ^ 8 \<le> 2" by (simp add: power_divide)
  moreover have "exp (1 / 12 :: real) ^ 8 = exp (of_nat 8 * (1 / 12))"
    by (rule exp_of_nat_mult [symmetric])
  ultimately have e: "exp (2 / 3 :: real) \<le> 2" by simp
  have "(2 / 3 \<le> ln (2::real)) = (exp (2 / 3) \<le> (2::real))" by (rule ln_ge_iff) simp
  with e show "2 / 3 \<le> ln (2::real)" by blast
  have "1 + 7 / 640 \<le> exp (7 / 640 :: real)" by (rule exp_ge_add_one_self)
  then have "(1 + 7 / 640 :: real) ^ 64 \<le> exp (7 / 640) ^ 64" by (intro power_mono) simp_all
  moreover have "(2::real) \<le> (1 + 7 / 640) ^ 64" by (simp add: power_divide)
  moreover have "exp (7 / 640 :: real) ^ 64 = exp (of_nat 64 * (7 / 640))"
    by (rule exp_of_nat_mult [symmetric])
  ultimately have "(2::real) \<le> exp (7 / 10)" by simp
  then have "ln (2::real) \<le> ln (exp (7 / 10))" by (intro ln_mono) simp_all
  then show "ln (2::real) \<le> 7 / 10" by simp
qed

lemma pow2_near_pos:
  fixes t :: real
  assumes "0 \<le> t" and "t \<le> 1"
  shows "1 + 2 / 3 * t \<le> 2 powr t" and "2 powr t \<le> 1 + 7 / 10 * t + t\<^sup>2"
proof -
  define y where "y = t * ln 2"
  have p: "2 powr t = exp y" by (simp add: powr_def y_def)
  have ylo: "2 / 3 * t \<le> y"
    unfolding y_def using mult_left_mono [OF ln2_bounds(1) assms(1)] by (simp add: mult.commute)
  have yhi: "y \<le> 7 / 10 * t"
    unfolding y_def using mult_left_mono [OF ln2_bounds(2) assms(1)] by (simp add: mult.commute)
  have y0: "0 \<le> y" using ylo assms(1) by simp
  have y1: "y \<le> 1" using yhi assms(2) by simp
  have "1 + y \<le> exp y" by (rule exp_ge_add_one_self)
  with ylo show "1 + 2 / 3 * t \<le> 2 powr t" unfolding p by linarith
  have yt: "y \<le> t" using yhi assms(1) by simp
  have "y * y \<le> t * t" using y0 yt by (intro mult_mono) simp_all
  then have "y\<^sup>2 \<le> t\<^sup>2" by (simp add: power2_eq_square)
  moreover have "exp y \<le> 1 + y + y\<^sup>2" using y0 y1 by (rule exp_bound)
  ultimately show "2 powr t \<le> 1 + 7 / 10 * t + t\<^sup>2" using yhi unfolding p by linarith
qed

lemma pow2_near_neg:
  fixes t :: real
  assumes "t \<le> 0"
  shows "1 + 7 / 10 * t \<le> 2 powr t" and "2 powr t \<le> 1 / (1 - 2 / 3 * t)"
proof -
  define y where "y = t * ln 2"
  have p: "2 powr t = exp y" by (simp add: powr_def y_def)
  have ylo: "7 / 10 * t \<le> y"
    unfolding y_def using mult_left_mono_neg [OF ln2_bounds(2) assms] by (simp add: mult.commute)
  have yhi: "y \<le> 2 / 3 * t"
    unfolding y_def using mult_left_mono_neg [OF ln2_bounds(1) assms] by (simp add: mult.commute)
  have "1 + y \<le> exp y" by (rule exp_ge_add_one_self)
  with ylo show "1 + 7 / 10 * t \<le> 2 powr t" unfolding p by linarith
  have pos: "0 < 1 - 2 / 3 * t" using assms by simp
  have "1 + (- y) \<le> exp (- y)" by (rule exp_ge_add_one_self)
  with yhi have "1 - 2 / 3 * t \<le> exp (- y)" by linarith
  then have "1 / exp (- y) \<le> 1 / (1 - 2 / 3 * t)"
    using pos by (intro divide_left_mono) simp_all
  moreover have "1 / exp (- y) = exp y" by (simp add: exp_minus inverse_eq_divide)
  ultimately show "2 powr t \<le> 1 / (1 - 2 / 3 * t)" unfolding p by (simp only:)
qed

lemma pow2_five_twelfths:
  "133483985417003436 / 100000000000000000 \<le> 2 powr (5 / 12 :: real)"
  "2 powr (5 / 12 :: real) \<le> 133483985417003437 / 100000000000000000"
proof -
  define L :: real where "L = 133483985417003436 / 100000000000000000"
  define H :: real where "H = 133483985417003437 / 100000000000000000"
  have root: "(x ^ 12) powr (1 / 12) = x" if "0 < x" for x :: real
  proof -
    have "x ^ 12 = x powr 12" using that by simp
    then have "(x ^ 12) powr (1 / 12) = (x powr 12) powr (1 / 12)" by simp
    also have "\<dots> = x powr (12 * (1 / 12))" by (rule powr_powr)
    also have "\<dots> = x" using that by simp
    finally show ?thesis .
  qed
  have r32: "(32::real) powr (1 / 12) = 2 powr (5 / 12)"
  proof -
    have "(32::real) = 2 powr 5" by simp
    then have "(32::real) powr (1 / 12) = (2 powr 5) powr (1 / 12)" by simp
    also have "\<dots> = 2 powr (5 * (1 / 12))" by (rule powr_powr)
    finally show ?thesis by simp
  qed
  have "L ^ 12 \<le> 32" by (simp add: L_def power_divide)
  then have "(L ^ 12) powr (1 / 12) \<le> 32 powr (1 / 12)"
    by (intro powr_mono2) (simp_all add: L_def)
  then show "133483985417003436 / 100000000000000000 \<le> 2 powr (5 / 12 :: real)"
    using root [of L] by (simp add: r32 L_def)
  have "32 \<le> H ^ 12" by (simp add: H_def power_divide)
  then have "32 powr (1 / 12) \<le> (H ^ 12) powr (1 / 12)"
    by (intro powr_mono2) simp_all
  then show "2 powr (5 / 12 :: real) \<le> 133483985417003437 / 100000000000000000"
    using root [of H] by (simp add: r32 H_def)
qed

lemma rel_from_bounds:
  fixes p v u :: real
  assumes "p \<le> v * (1 + u)" and "v * (1 - u) \<le> p"
  shows "\<bar>p - v\<bar> \<le> u * v"
  using assms by (simp add: abs_le_iff algebra_simps)

lemma sample_power_2:
  "\<bar>6011584269839455 / 144115188075855872 - 2 powr (- 5160374573028693 / 1125899906842624)\<bar>
   \<le> 1 / 2 ^ 53 * 2 powr (- 5160374573028693 / 1125899906842624 :: real)"
proof -
  define t :: real where "t = - 5160374573028693 / 1125899906842624 + 55 / 12"
  define L :: real where "L = 133483985417003436 / 100000000000000000"
  define H :: real where "H = 133483985417003437 / 100000000000000000"
  define p :: real where "p = 6011584269839455 / 144115188075855872"
  define v :: real where "v = 2 powr (- 5160374573028693 / 1125899906842624)"
  define r :: real where "r = 2 powr (5 / 12)"
  define w :: real where "w = 2 powr t"
  have t0: "0 \<le> t" and t1: "t \<le> 1" by (simp_all add: t_def)
  have "(- 5160374573028693 / 1125899906842624 :: real) = - 5 + 5 / 12 + t" by (simp add: t_def)
  then have "v = 2 powr (- 5 + 5 / 12 + t)" by (simp only: v_def)
  also have "\<dots> = 2 powr (- 5) * 2 powr (5 / 12) * 2 powr t" by (simp only: powr_add)
  also have "2 powr (- 5 :: real) = 1 / 32" by (simp add: powr_minus_divide)
  finally have v: "v = 1 / 32 * r * w" by (simp add: r_def w_def)
  have r: "L \<le> r" "r \<le> H" using pow2_five_twelfths by (simp_all add: L_def H_def r_def)
  have w: "1 + 2 / 3 * t \<le> w" "w \<le> 1 + 7 / 10 * t + t\<^sup>2"
    using pow2_near_pos [OF t0 t1] by (simp_all add: w_def)
  have r0: "0 \<le> r" by (simp add: r_def)
  have w0: "0 \<le> 1 + 2 / 3 * t" using t0 by simp
  have "L * (1 + 2 / 3 * t) \<le> r * w" using r(1) w(1) r0 w0 by (rule mult_mono)
  then have lo: "1 / 32 * (L * (1 + 2 / 3 * t)) \<le> v" by (simp add: v)
  have wpos: "0 \<le> w" by (simp add: w_def)
  have H0: "0 \<le> H" by (simp add: H_def)
  have "r * w \<le> H * (1 + 7 / 10 * t + t\<^sup>2)"
    using r(2) w(2) H0 wpos by (rule mult_mono)
  then have hi: "v \<le> 1 / 32 * (H * (1 + 7 / 10 * t + t\<^sup>2))" by (simp add: v)
  have a: "p \<le> 1 / 32 * (L * (1 + 2 / 3 * t)) * (1 + 1 / 2 ^ 53)"
    by (simp add: p_def L_def t_def power2_eq_square)
  have b: "1 / 32 * (H * (1 + 7 / 10 * t + t\<^sup>2)) * (1 - 1 / 2 ^ 53) \<le> p"
    by (simp add: p_def H_def t_def power2_eq_square)
  have "1 / 32 * (L * (1 + 2 / 3 * t)) * (1 + 1 / 2 ^ 53) \<le> v * (1 + 1 / 2 ^ 53)"
    using lo by (intro mult_right_mono) simp_all
  with a have up: "p \<le> v * (1 + 1 / 2 ^ 53)" by linarith
  have "v * (1 - 1 / 2 ^ 53) \<le> 1 / 32 * (H * (1 + 7 / 10 * t + t\<^sup>2)) * (1 - 1 / 2 ^ 53)"
    using hi by (intro mult_right_mono) simp_all
  with b have dn: "v * (1 - 1 / 2 ^ 53) \<le> p" by linarith
  from up dn have "\<bar>p - v\<bar> \<le> 1 / 2 ^ 53 * v" by (rule rel_from_bounds)
  then show ?thesis by (simp only: p_def v_def)
qed

lemma sample_power_14:
  "\<bar>6011584269839453 / 72057594037927936 - 2 powr (- 8068949332372139 / 2251799813685248)\<bar>
   \<le> 1 / 2 ^ 53 * 2 powr (- 8068949332372139 / 2251799813685248 :: real)"
proof -
  define t :: real where "t = - 8068949332372139 / 2251799813685248 + 43 / 12"
  define L :: real where "L = 133483985417003436 / 100000000000000000"
  define H :: real where "H = 133483985417003437 / 100000000000000000"
  define p :: real where "p = 6011584269839453 / 72057594037927936"
  define v :: real where "v = 2 powr (- 8068949332372139 / 2251799813685248)"
  define r :: real where "r = 2 powr (5 / 12)"
  define w :: real where "w = 2 powr t"
  have t0: "t \<le> 0" and t1: "- 1 \<le> t" by (simp_all add: t_def)
  have "(- 8068949332372139 / 2251799813685248 :: real) = - 4 + 5 / 12 + t" by (simp add: t_def)
  then have "v = 2 powr (- 4 + 5 / 12 + t)" by (simp only: v_def)
  also have "\<dots> = 2 powr (- 4) * 2 powr (5 / 12) * 2 powr t" by (simp only: powr_add)
  also have "2 powr (- 4 :: real) = 1 / 16" by (simp add: powr_minus_divide)
  finally have v: "v = 1 / 16 * r * w" by (simp add: r_def w_def)
  have r: "L \<le> r" "r \<le> H" using pow2_five_twelfths by (simp_all add: L_def H_def r_def)
  define hb :: real where "hb = 1 / (1 - 2 / 3 * t)"
  have w: "1 + 7 / 10 * t \<le> w" "w \<le> hb"
    using pow2_near_neg [OF t0] by (simp_all add: w_def hb_def)
  have r0: "0 \<le> r" by (simp add: r_def)
  have w0: "0 \<le> 1 + 7 / 10 * t" using t1 by simp
  have "L * (1 + 7 / 10 * t) \<le> r * w" using r(1) w(1) r0 w0 by (rule mult_mono)
  then have lo: "1 / 16 * (L * (1 + 7 / 10 * t)) \<le> v" by (simp add: v)
  have wpos: "0 \<le> w" by (simp add: w_def)
  have H0: "0 \<le> H" by (simp add: H_def)
  have "r * w \<le> H * hb"
    using r(2) w(2) H0 wpos by (rule mult_mono)
  then have hi: "v \<le> 1 / 16 * (H * hb)" by (simp add: v)
  have a: "p \<le> 1 / 16 * (L * (1 + 7 / 10 * t)) * (1 + 1 / 2 ^ 53)"
    by (simp add: p_def L_def t_def)
  have b: "1 / 16 * (H * hb) * (1 - 1 / 2 ^ 53) \<le> p"
    by (simp add: p_def H_def t_def hb_def)
  have "1 / 16 * (L * (1 + 7 / 10 * t)) * (1 + 1 / 2 ^ 53) \<le> v * (1 + 1 / 2 ^ 53)"
    using lo by (intro mult_right_mono) simp_all
  with a have up: "p \<le> v * (1 + 1 / 2 ^ 53)" by linarith
  have "v * (1 - 1 / 2 ^ 53) \<le> 1 / 16 * (H * hb) * (1 - 1 / 2 ^ 53)"
    using hi by (intro mult_right_mono) simp_all
  with b have dn: "v * (1 - 1 / 2 ^ 53) \<le> p" by linarith
  from up dn have "\<bar>p - v\<bar> \<le> 1 / 2 ^ 53 * v" by (rule rel_from_bounds)
  then show ?thesis by (simp only: p_def v_def)
qed

lemma accurate_sample: "accurate table_sample (1 / 2 ^ 53)"
proof -
  have rd: "\<bar>round_double table_sample x - x\<bar> \<le> 1 / 2 ^ 53 * \<bar>x\<bar>" for x
    by (simp add: table_sample_def)
  have pw: "\<bar>pow2_of table_sample x - 2 powr x\<bar> \<le> 1 / 2 ^ 53 * 2 powr x" for x
    using sample_power_2 sample_power_14 by (simp add: table_sample_def)
  have "round_double table_sample 0 = 0" "round_double table_sample 440 = 440"
    "pow2_of table_sample 0 = 1"
    by (simp_all add: table_sample_def)
  with rd pw show ?thesis by (simp add: accurate_def)
qed

text \<open>
  Claim C5, as amended. On every engine the table built at start-up has \<open>9 * 12 = 108\<close>
  entries. The entry pushed in octave \<open>octave\<close> for semitone \<open>k\<close> stands at index
  \<open>octave * 12 + k\<close>, so the entry with index \<open>i\<close> has the pitch class
  \<open>NOTE_NAMES ! (i mod 12)\<close> and the octave \<open>i div 12\<close>. Its frequency is the double computed
  for \<open>440 * 2 powr ((i - 57) / 12)\<close>: on an engine accurate to \<open>u\<close>, with \<open>u\<close> at most
  \<open>1 / 1000\<close>, it differs from that number by a relative error of at most \<open>12 * u\<close>. The
  frequencies increase strictly with the index, and index 57 is the A of octave 4 with
  exactly 440 Hz. Twelve entries further up the frequency is doubled up to a relative error
  of \<open>50 * u\<close>; it is not doubled exactly.
\<close>

theorem note_table_floating:
  assumes "accurate E u" and "u \<le> 1 / 1000"
  shows "length (NOTE_FREQUENCIES_on E) = 9 * 12 \<and>
   (\<forall>octave<9. \<forall>k<12.
      (octave * 12 + k) div 12 = octave \<and> (octave * 12 + k) mod 12 = k \<and>
      NOTE_FREQUENCIES_on E ! (octave * 12 + k) = pushed_entry_on E octave k) \<and>
   (\<forall>i<108. ne_note (NOTE_FREQUENCIES_on E ! i) = NOTE_NAMES ! (i mod 12) \<and>
      \<bar>ne_frequency (NOTE_FREQUENCIES_on E ! i) - 440 * 2 powr ((real i - 57) / 12)\<bar>
        \<le> 12 * u * (440 * 2 powr ((real i - 57) / 12))) \<and>
   (\<forall>i j. i < j \<and> j < 108 \<longrightarrow>
      ne_frequency (NOTE_FREQUENCIES_on E ! i) < ne_frequency (NOTE_FREQUENCIES_on E ! j)) \<and>
   ne_frequency (NOTE_FREQUENCIES_on E ! 57) = 440 \<and>
   ne_note (NOTE_FREQUENCIES_on E ! 57) = ''A'' \<and> (57::nat) div 12 = 4 \<and>
   (\<forall>i. i + 12 < 108 \<longrightarrow>
      \<bar>ne_frequency (NOTE_FREQUENCIES_on E ! (i + 12)) - 2 * ne_frequency (NOTE_FREQUENCIES_on E ! i)\<bar>
        \<le> 50 * u * ne_frequency (NOTE_FREQUENCIES_on E ! i))"
proof -
  have a: "\<forall>octave<9. \<forall>k<12.
      (octave * 12 + k) div 12 = octave \<and> (octave * 12 + k) mod 12 = k \<and>
      NOTE_FREQUENCIES_on E ! (octave * 12 + k) = pushed_entry_on E octave k"
  proof (intro allI impI)
    fix octave k :: nat
    assume "octave < 9" and "k < 12"
    then have "octave * 12 + k < 108" by simp
    then have "NOTE_FREQUENCIES_on E ! (octave * 12 + k) = table_entry_on E (octave * 12 + k)"
      by (rule nth_NOTE_FREQUENCIES_on)
    with \<open>k < 12\<close> show "(octave * 12 + k) div 12 = octave \<and> (octave * 12 + k) mod 12 = k \<and>
      NOTE_FREQUENCIES_on E ! (octave * 12 + k) = pushed_entry_on E octave k"
      by (simp add: table_entry_on_def pushed_entry_on_def)
  qed
  have b: "\<forall>i<108. ne_note (NOTE_FREQUENCIES_on E ! i) = NOTE_NAMES ! (i mod 12) \<and>
      \<bar>ne_frequency (NOTE_FREQUENCIES_on E ! i) - 440 * 2 powr ((real i - 57) / 12)\<bar>
        \<le> 12 * u * (440 * 2 powr ((real i - 57) / 12))"
  proof (intro allI impI)
    fix i :: nat assume i: "i < 108"
    have "ne_note (NOTE_FREQUENCIES_on E ! i) = NOTE_NAMES ! (i mod 12)"
      using i by (simp add: nth_NOTE_FREQUENCIES_on table_entry_on_def)
    moreover have "\<bar>ne_frequency (NOTE_FREQUENCIES_on E ! i) - 440 * 2 powr ((real i - 57) / 12)\<bar>
        \<le> 12 * u * (440 * 2 powr ((real i - 57) / 12))"
      using entry_accurate [OF assms i] i by (simp add: nth_NOTE_FREQUENCIES_on table_entry_def)
    ultimately show "ne_note (NOTE_FREQUENCIES_on E ! i) = NOTE_NAMES ! (i mod 12) \<and>
      \<bar>ne_frequency (NOTE_FREQUENCIES_on E ! i) - 440 * 2 powr ((real i - 57) / 12)\<bar>
        \<le> 12 * u * (440 * 2 powr ((real i - 57) / 12))"
      by simp
  qed
  have c: "\<forall>i j. i < j \<and> j < 108 \<longrightarrow>
      ne_frequency (NOTE_FREQUENCIES_on E ! i) < ne_frequency (NOTE_FREQUENCIES_on E ! j)"
    using entry_mono [OF assms] by (auto simp: nth_NOTE_FREQUENCIES_on)
  have d: "ne_frequency (NOTE_FREQUENCIES_on E ! 57) = 440" "ne_note (NOTE_FREQUENCIES_on E ! 57) = ''A''"
    using assms(1) by (simp_all add: nth_NOTE_FREQUENCIES_on table_entry_on_def NOTE_NAMES_def accurate_def)
  have e: "\<forall>i. i + 12 < 108 \<longrightarrow>
      \<bar>ne_frequency (NOTE_FREQUENCIES_on E ! (i + 12)) - 2 * ne_frequency (NOTE_FREQUENCIES_on E ! i)\<bar>
        \<le> 50 * u * ne_frequency (NOTE_FREQUENCIES_on E ! i)"
    using entry_octave [OF assms] by (auto simp: nth_NOTE_FREQUENCIES_on)
  show ?thesis
    using a b c d e by (simp add: length_NOTE_FREQUENCIES_on)
qed

text \<open>
  The doubling is not exact: with the doubles of IEEE arithmetic, an engine accurate to
  \<open>2^-53\<close>, the entries with the indices 2 and 14 are \<^verbatim>\<open>18.354047994837977\<close> and
  \<^verbatim>\<open>36.70809598967594\<close>, and the second is not twice the first.
\<close>

theorem note_table_floating_counterexample:
  "accurate table_sample (1 / 2 ^ 53) \<and>
   ne_frequency (NOTE_FREQUENCIES_on table_sample ! 2) = 2583102615946641 / 140737488355328 \<and>
   ne_frequency (NOTE_FREQUENCIES_on table_sample ! (2 + 12)) = 161443913496665 / 4398046511104 \<and>
   ne_frequency (NOTE_FREQUENCIES_on table_sample ! (2 + 12))
     \<noteq> 2 * ne_frequency (NOTE_FREQUENCIES_on table_sample ! 2)"
  using accurate_sample by (simp add: nth_NOTE_FREQUENCIES_on sample_entries)

theorem note_table_floating_witness:
  "accurate exact_engine 0 \<and>
   NOTE_FREQUENCIES_on exact_engine ! (2 * 12 + 4) = pushed_entry_on exact_engine 2 4 \<and>
   ne_note (NOTE_FREQUENCIES_on exact_engine ! 28) = ''E'' \<and>
   ne_frequency (NOTE_FREQUENCIES_on exact_engine ! 45) < ne_frequency (NOTE_FREQUENCIES_on exact_engine ! 57) \<and>
   ne_frequency (NOTE_FREQUENCIES_on exact_engine ! 69) = 880 \<and>
   accurate table_sample (1 / 2 ^ 53) \<and>
   ne_frequency (NOTE_FREQUENCIES_on table_sample ! 57) = 440 \<and>
   ne_frequency (NOTE_FREQUENCIES_on table_sample ! 2) < ne_frequency (NOTE_FREQUENCIES_on table_sample ! 14) \<and>
   \<bar>ne_frequency (NOTE_FREQUENCIES_on table_sample ! 14) - 2 * ne_frequency (NOTE_FREQUENCIES_on table_sample ! 2)\<bar>
     \<le> 50 * (1 / 2 ^ 53) * ne_frequency (NOTE_FREQUENCIES_on table_sample ! 2)"
proof -
  have u: "(0::real) \<le> 1 / 1000" by simp
  note ex = note_table_floating [OF accurate_exact u]
  have "NOTE_FREQUENCIES_on exact_engine ! (2 * 12 + 4) = pushed_entry_on exact_engine 2 4"
    using ex [THEN conjunct2, THEN conjunct1, rule_format, of 2 4] by simp
  moreover have "ne_note (NOTE_FREQUENCIES_on exact_engine ! 28) = ''E''"
    using ex [THEN conjunct2, THEN conjunct2, THEN conjunct1, rule_format, of 28]
    by (simp add: NOTE_NAMES_def)
  moreover have "ne_frequency (NOTE_FREQUENCIES_on exact_engine ! 45)
      < ne_frequency (NOTE_FREQUENCIES_on exact_engine ! 57)"
    using ex [THEN conjunct2, THEN conjunct2, THEN conjunct2, THEN conjunct1, rule_format, of 45 57]
    by simp
  moreover have "ne_frequency (NOTE_FREQUENCIES_on exact_engine ! 69) = 880"
  proof -
    from ex
    have e: "\<forall>i. i + 12 < 108 \<longrightarrow>
      \<bar>ne_frequency (NOTE_FREQUENCIES_on exact_engine ! (i + 12))
         - 2 * ne_frequency (NOTE_FREQUENCIES_on exact_engine ! i)\<bar>
        \<le> 50 * 0 * ne_frequency (NOTE_FREQUENCIES_on exact_engine ! i)"
      and f: "ne_frequency (NOTE_FREQUENCIES_on exact_engine ! 57) = 440"
      by blast+
    from e [rule_format, of 57] f show ?thesis by simp
  qed
  moreover have su: "(1 / 2 ^ 53 :: real) \<le> 1 / 1000" by simp
  note sa = note_table_floating [OF accurate_sample su]
  have "ne_frequency (NOTE_FREQUENCIES_on table_sample ! 57) = 440"
    using sa by blast
  moreover have "ne_frequency (NOTE_FREQUENCIES_on table_sample ! 2)
      < ne_frequency (NOTE_FREQUENCIES_on table_sample ! 14)"
    using sa [THEN conjunct2, THEN conjunct2, THEN conjunct2, THEN conjunct1, rule_format, of 2 14]
    by simp
  moreover have "\<bar>ne_frequency (NOTE_FREQUENCIES_on table_sample ! 14)
        - 2 * ne_frequency (NOTE_FREQUENCIES_on table_sample ! 2)\<bar>
     \<le> 50 * (1 / 2 ^ 53) * ne_frequency (NOTE_FREQUENCIES_on table_sample ! 2)"
  proof -
    from sa
    have e: "\<forall>i. i + 12 < 108 \<longrightarrow>
      \<bar>ne_frequency (NOTE_FREQUENCIES_on table_sample ! (i + 12))
         - 2 * ne_frequency (NOTE_FREQUENCIES_on table_sample ! i)\<bar>
        \<le> 50 * (1 / 2 ^ 53) * ne_frequency (NOTE_FREQUENCIES_on table_sample ! i)"
      by blast
    from e [rule_format, of 2] show ?thesis by simp
  qed
  ultimately show ?thesis using accurate_exact accurate_sample by blast
qed

section \<open>Nearest note and cents\<close>

lemma noteIndex_Fin:
  assumes "0 < f"
  shows "js_add (Math_round (js_mul (Fin 12) (Math_log2 (js_div (Fin f) (Fin 440))))) (Fin 57)
         = Fin (of_int (\<lfloor>12 * log 2 (f / 440) + 1 / 2\<rfloor> + 57))"
  using assms by (simp add: divide_less_0_iff not_less)

lemma findClosestNote_Fin:
  assumes "0 < f" and "idx = \<lfloor>12 * log 2 (f / 440) + 1 / 2\<rfloor> + 57"
  shows "findClosestNote (Fin f) =
           Inr (if idx < 0 \<or> 108 \<le> idx
                then \<lparr>cn_note = ''--'', cn_octave = Fin 0, cn_frequency = Fin 0\<rparr>
                else \<lparr>cn_note = NOTE_NAMES ! (nat idx mod 12),
                      cn_octave = Fin (of_int (idx div 12)),
                      cn_frequency = Fin (ne_frequency (NOTE_FREQUENCIES ! nat idx))\<rparr>)"
proof -
  have ni: "js_add (Math_round (js_mul (Fin 12) (Math_log2 (js_div (Fin f) (Fin 440))))) (Fin 57)
         = Fin (of_int idx)"
    using noteIndex_Fin [OF assms(1)] assms(2) by simp
  have fl: "\<lfloor>real_of_int idx / 12\<rfloor> = idx div 12"
    using floor_divide_of_int_eq [of idx 12] by simp
  show ?thesis
    unfolding findClosestNote_def Let_def ni
    by (auto simp: js_ge_def length_NOTE_FREQUENCIES fl)
qed

lemma calculateCents_Fin:
  "0 < d \<Longrightarrow> 0 < t \<Longrightarrow> calculateCents (Fin d) (Fin t) = Fin (1200 * log 2 (d / t))"
  by (simp add: calculateCents_def divide_less_0_iff not_less)

lemma js_rounded_exact: "js_rounded exact_engine a = a"
  by (cases a) (simp_all add: js_rounded_def exact_engine_def)

lemma Math_log2_exact: "Math_log2_on exact_engine a = Math_log2 a"
  by (cases a) (simp_all add: exact_engine_def)

lemma findClosestNote_exact: "findClosestNote_on exact_engine freq = findClosestNote freq"
  unfolding findClosestNote_on_def findClosestNote_def js_rounded_exact Math_log2_exact
    NOTE_FREQUENCIES_exact
  by (rule refl)

lemma findClosestNote_on_index:
  assumes "js_rounded E (js_mul (Fin 12) (Math_log2_on E (js_rounded E (js_div (Fin f) (Fin 440))))) = Fin s"
    and "idx = \<lfloor>s + 1 / 2\<rfloor> + 57"
  shows "findClosestNote_on E (Fin f) =
           Inr (if idx < 0 \<or> 108 \<le> idx
                then \<lparr>cn_note = ''--'', cn_octave = Fin 0, cn_frequency = Fin 0\<rparr>
                else \<lparr>cn_note = NOTE_NAMES ! (nat idx mod 12),
                      cn_octave = Fin (of_int (idx div 12)),
                      cn_frequency = Fin (ne_frequency (NOTE_FREQUENCIES_on E ! nat idx))\<rparr>)"
proof -
  have ni: "js_add (Math_round (js_rounded E (js_mul (Fin 12)
      (Math_log2_on E (js_rounded E (js_div (Fin f) (Fin 440))))))) (Fin 57) = Fin (of_int idx)"
    unfolding assms(1) using assms(2) by simp
  have fl: "\<lfloor>real_of_int idx / 12\<rfloor> = idx div 12"
    using floor_divide_of_int_eq [of idx 12] by simp
  show ?thesis
    unfolding findClosestNote_on_def Let_def ni
    by (auto simp: js_ge_def length_NOTE_FREQUENCIES_on fl)
qed

lemma semitones_on:
  assumes "q = round_double E (f / 440)"
  shows "0 < q \<Longrightarrow>
           js_rounded E (js_mul (Fin 12) (Math_log2_on E (js_rounded E (js_div (Fin f) (Fin 440)))))
           = Fin (round_double E (12 * log2_of E q))"
    and "q = 0 \<Longrightarrow>
           js_rounded E (js_mul (Fin 12) (Math_log2_on E (js_rounded E (js_div (Fin f) (Fin 440)))))
           = NegInf"
  using assms by (simp_all add: js_rounded_def js_inf_def)

lemma findClosestNote_on_underflow:
  assumes "round_double E (f / 440) = 0"
  shows "findClosestNote_on E (Fin f) = Inr \<lparr>cn_note = ''--'', cn_octave = Fin 0, cn_frequency = Fin 0\<rparr>"
proof -
  have "js_rounded E (js_mul (Fin 12) (Math_log2_on E (js_rounded E (js_div (Fin f) (Fin 440))))) = NegInf"
    using semitones_on(2) [OF refl, of E f] assms by simp
  then show ?thesis
    by (simp add: findClosestNote_on_def)
qed

lemma round_near:
  fixes s e :: real
  assumes "\<bar>s - e\<bar> \<le> eps"
    and "\<forall>k::int. eps < \<bar>e - (of_int k + 1 / 2)\<bar>"
  shows "\<lfloor>s + 1 / 2\<rfloor> = \<lfloor>e + 1 / 2\<rfloor>"
proof -
  define n where "n = \<lfloor>e + 1 / 2\<rfloor>"
  have lo: "of_int n \<le> e + 1 / 2" and hi: "e + 1 / 2 < of_int n + 1"
    unfolding n_def by linarith+
  from assms(2) [rule_format, of "n - 1"] lo have a: "eps < e - (of_int n - 1 / 2)"
    by (simp add: abs_if split: if_splits)
  from assms(2) [rule_format, of n] hi have b: "eps < of_int n + 1 / 2 - e"
    by (simp add: abs_if split: if_splits)
  from assms(1) a b have "of_int n \<le> s + 1 / 2" "s + 1 / 2 < of_int n + 1"
    by linarith+
  then have "\<lfloor>s + 1 / 2\<rfloor> = n" by (rule floor_unique)
  then show ?thesis by (simp add: n_def)
qed

text \<open>
  Claim C6, as amended. For a positive frequency \<open>f\<close>, \<^verbatim>\<open>findClosestNote\<close> computes the
  semitone offset \<open>s\<close> in floating point, as the rounded product of 12 and the logarithm of
  the rounded quotient \<open>q\<close> of \<open>f\<close> by 440, and the index \<open>round s + 57\<close>, where halves are
  rounded up. When the index is outside \<open>[0, 108)\<close>, and when the quotient underflows to 0,
  it returns the placeholder (note \<open>--\<close>, octave 0, frequency 0) and throws nothing; inside
  it returns the pitch class, the octave and the reference frequency of the table entry,
  not the frequency it was given. A computed offset of exactly \<open>k + 1/2\<close> goes to the higher
  note. When the exact offset \<open>12 * log2 (f / 440)\<close> is farther from every \<open>k + 1/2\<close> than
  the error \<open>eps\<close> of \<open>s\<close>, the index is the one of the exact offset. Nearer to a midpoint
  between two notes the error of \<open>s\<close> decides between them, and nothing is said.
\<close>

theorem findClosestNote_floating:
  assumes "0 < f"
    and "q = round_double E (f / 440)"
    and "s = round_double E (12 * log2_of E q)"
    and "idx = \<lfloor>s + 1 / 2\<rfloor> + 57"
  shows "(0 < q \<longrightarrow>
           findClosestNote_on E (Fin f) =
             Inr (if idx < 0 \<or> 108 \<le> idx
                  then \<lparr>cn_note = ''--'', cn_octave = Fin 0, cn_frequency = Fin 0\<rparr>
                  else \<lparr>cn_note = NOTE_NAMES ! (nat idx mod 12),
                        cn_octave = Fin (of_int (idx div 12)),
                        cn_frequency = Fin (ne_frequency (NOTE_FREQUENCIES_on E ! nat idx))\<rparr>)) \<and>
         (q = 0 \<longrightarrow>
           findClosestNote_on E (Fin f) =
             Inr \<lparr>cn_note = ''--'', cn_octave = Fin 0, cn_frequency = Fin 0\<rparr>) \<and>
         (\<forall>k::int. s = of_int k + 1 / 2 \<longrightarrow> idx = k + 1 + 57) \<and>
         (\<forall>eps. \<bar>s - 12 * log 2 (f / 440)\<bar> \<le> eps \<and>
                (\<forall>k::int. eps < \<bar>12 * log 2 (f / 440) - (of_int k + 1 / 2)\<bar>) \<longrightarrow>
                idx = \<lfloor>12 * log 2 (f / 440) + 1 / 2\<rfloor> + 57)"
proof (intro conjI allI impI)
  assume "0 < q"
  from semitones_on(1) [OF assms(2) this]
  have "js_rounded E (js_mul (Fin 12) (Math_log2_on E (js_rounded E (js_div (Fin f) (Fin 440))))) = Fin s"
    by (simp add: assms(3))
  then show "findClosestNote_on E (Fin f) =
             Inr (if idx < 0 \<or> 108 \<le> idx
                  then \<lparr>cn_note = ''--'', cn_octave = Fin 0, cn_frequency = Fin 0\<rparr>
                  else \<lparr>cn_note = NOTE_NAMES ! (nat idx mod 12),
                        cn_octave = Fin (of_int (idx div 12)),
                        cn_frequency = Fin (ne_frequency (NOTE_FREQUENCIES_on E ! nat idx))\<rparr>)"
    using assms(4) by (rule findClosestNote_on_index)
next
  assume "q = 0"
  then show "findClosestNote_on E (Fin f) =
             Inr \<lparr>cn_note = ''--'', cn_octave = Fin 0, cn_frequency = Fin 0\<rparr>"
    using assms(2) by (intro findClosestNote_on_underflow) simp
next
  fix k :: int
  assume "s = of_int k + 1 / 2"
  then have "s + 1 / 2 = of_int (k + 1)" by simp
  then have "\<lfloor>s + 1 / 2\<rfloor> = k + 1" by (simp only: floor_of_int)
  then show "idx = k + 1 + 57" by (simp add: assms(4))
next
  fix eps
  assume h: "\<bar>s - 12 * log 2 (f / 440)\<bar> \<le> eps \<and>
          (\<forall>k::int. eps < \<bar>12 * log 2 (f / 440) - (of_int k + 1 / 2)\<bar>)"
  have "\<lfloor>s + 1 / 2\<rfloor> = \<lfloor>12 * log 2 (f / 440) + 1 / 2\<rfloor>"
    by (rule round_near [OF h [THEN conjunct1] h [THEN conjunct2]])
  then show "idx = \<lfloor>12 * log 2 (f / 440) + 1 / 2\<rfloor> + 57" by (simp add: assms(4))
qed

text \<open>
  The higher note is not always chosen at a midpoint, and the index is not always the
  rounded exact offset: for the double \<^verbatim>\<open>427.4740541075866\<close> computed as the geometric mean
  of G#4 and A4, the offset is computed as \<^verbatim>\<open>-0.5000000000000001\<close> and the result is G#4,
  whereas the exact offset lies above \<open>- 1/2\<close>, less than \<open>2 / 10^15\<close> away from the computed
  one, and rounds to A4.
\<close>

lemma midpoint_exact_offset:
  "- 1 / 2 \<le> 12 * log 2 (7520203089021415 / 17592186044416 / 440 :: real)"
  "12 * log 2 (7520203089021415 / 17592186044416 / 440 :: real) \<le> - 1 / 2 + 1 / 10 ^ 15"
proof -
  define r :: real where "r = 7520203089021415 / 17592186044416 / 440"
  define K :: real where "K = 9715319411536058687 / 10000000000000000000"
  define t :: real where "t = 1 / (12 * 10 ^ 15)"
  have r0: "0 < r" by (simp add: r_def)
  have root: "(x ^ 24) powr (1 / 24) = x" if "0 < x" for x :: real
  proof -
    have "x ^ 24 = x powr 24" using that by simp
    then have "(x ^ 24) powr (1 / 24) = (x powr 24) powr (1 / 24)" by simp
    also have "\<dots> = x powr (24 * (1 / 24))" by (rule powr_powr)
    also have "\<dots> = x" using that by simp
    finally show ?thesis .
  qed
  have half: "(1 / 2 :: real) powr (1 / 24) = 2 powr (- 1 / 24)"
  proof -
    have "(1 / 2 :: real) = 2 powr (- 1)" by (simp add: powr_minus_divide)
    then have "(1 / 2 :: real) powr (1 / 24) = (2 powr (- 1)) powr (1 / 24)" by simp
    also have "\<dots> = 2 powr (- 1 * (1 / 24))" by (rule powr_powr)
    finally show ?thesis by simp
  qed
  have "1 / 2 \<le> r ^ 24" by (simp add: r_def power_divide)
  then have "(1 / 2) powr (1 / 24) \<le> (r ^ 24) powr (1 / 24)"
    by (intro powr_mono2) simp_all
  then have "2 powr (- 1 / 24) \<le> r" using root [OF r0] by (simp add: half)
  then have lo: "- 1 / 24 \<le> log 2 r" using r0 by (subst le_log_iff) simp_all
  then show "- 1 / 2 \<le> 12 * log 2 (7520203089021415 / 17592186044416 / 440 :: real)"
    by (simp add: r_def)
  have "K ^ 24 \<le> 1 / 2" by (simp add: K_def power_divide)
  then have "(K ^ 24) powr (1 / 24) \<le> (1 / 2) powr (1 / 24)"
    by (intro powr_mono2) (simp_all add: K_def)
  then have K: "K \<le> 2 powr (- 1 / 24)" using root [of K] by (simp add: half K_def)
  have t0: "0 \<le> t" "t \<le> 1" by (simp_all add: t_def)
  have w: "1 + 2 / 3 * t \<le> 2 powr t" by (rule pow2_near_pos(1) [OF t0])
  have "K * (1 + 2 / 3 * t) \<le> 2 powr (- 1 / 24) * 2 powr t"
    using K w by (intro mult_mono) (simp_all add: t_def)
  also have "\<dots> = 2 powr (- 1 / 24 + t)" by (simp only: powr_add)
  finally have b: "K * (1 + 2 / 3 * t) \<le> 2 powr (- 1 / 24 + t)" .
  have "r \<le> K * (1 + 2 / 3 * t)" by (simp add: r_def K_def t_def)
  with b have "r \<le> 2 powr (- 1 / 24 + t)" by linarith
  then have "log 2 r \<le> - 1 / 24 + t" using r0 by (subst log_le_iff) simp_all
  then show "12 * log 2 (7520203089021415 / 17592186044416 / 440 :: real) \<le> - 1 / 2 + 1 / 10 ^ 15"
    by (simp add: r_def t_def)
qed

lemma midpoint_exact_index:
  "\<lfloor>12 * log 2 (7520203089021415 / 17592186044416 / 440) + 1 / 2\<rfloor> + 57 = (57::int)"
proof -
  define e :: real where "e = 12 * log 2 (7520203089021415 / 17592186044416 / 440)"
  have "- 1 / 2 \<le> e" "e \<le> - 1 / 2 + 1 / 10 ^ 15"
    unfolding e_def by (rule midpoint_exact_offset)+
  then have "of_int 0 \<le> e + 1 / 2" "e + 1 / 2 < of_int 0 + 1" by simp_all
  then have "\<lfloor>e + 1 / 2\<rfloor> = 0" by (rule floor_unique)
  then show ?thesis by (simp add: e_def)
qed

theorem findClosestNote_floating_counterexample:
  "findClosestNote_on midpoint_sample (Fin (7520203089021415 / 17592186044416))
     = Inr \<lparr>cn_note = ''G#'', cn_octave = Fin 4,
            cn_frequency = Fin (ne_frequency (NOTE_FREQUENCIES_on midpoint_sample ! 56))\<rparr> \<and>
   round_double midpoint_sample
     (12 * log2_of midpoint_sample (round_double midpoint_sample (7520203089021415 / 17592186044416 / 440)))
     = - 4503599627370497 / 9007199254740992 \<and>
   \<bar>- 4503599627370497 / 9007199254740992
      - 12 * log 2 (7520203089021415 / 17592186044416 / 440)\<bar> \<le> (2 / 10 ^ 15 :: real) \<and>
   \<lfloor>12 * log 2 (7520203089021415 / 17592186044416 / 440) + 1 / 2\<rfloor> + 57 = (57::int) \<and>
   findClosestNote (Fin (7520203089021415 / 17592186044416))
     = Inr \<lparr>cn_note = ''A'', cn_octave = Fin 4, cn_frequency = Fin 440\<rparr>"
proof -
  define f :: real where "f = 7520203089021415 / 17592186044416"
  have pos: "0 < f" by (simp add: f_def)
  have q: "round_double midpoint_sample (f / 440) = 2187695444078957 / 2251799813685248"
    by (simp add: midpoint_sample_def f_def)
  have s: "round_double midpoint_sample (12 * log2_of midpoint_sample (2187695444078957 / 2251799813685248))
      = - 4503599627370497 / 9007199254740992"
    by (simp add: midpoint_sample_def)
  have "js_rounded midpoint_sample (js_mul (Fin 12)
      (Math_log2_on midpoint_sample (js_rounded midpoint_sample (js_div (Fin f) (Fin 440)))))
      = Fin (- 4503599627370497 / 9007199254740992)"
    using semitones_on(1) [OF refl, of midpoint_sample f] q s by simp
  moreover have "\<lfloor>(- 4503599627370497 / 9007199254740992 :: real) + 1 / 2\<rfloor> + 57 = 56"
    by linarith
  ultimately have "findClosestNote_on midpoint_sample (Fin f)
     = Inr \<lparr>cn_note = NOTE_NAMES ! (nat 56 mod 12), cn_octave = Fin (of_int (56 div 12)),
            cn_frequency = Fin (ne_frequency (NOTE_FREQUENCIES_on midpoint_sample ! nat 56))\<rparr>"
    using findClosestNote_on_index [of midpoint_sample f _ 56] by simp
  then have a: "findClosestNote_on midpoint_sample (Fin f)
     = Inr \<lparr>cn_note = ''G#'', cn_octave = Fin 4,
            cn_frequency = Fin (ne_frequency (NOTE_FREQUENCIES_on midpoint_sample ! 56))\<rparr>"
    by (simp add: NOTE_NAMES_def)
  have idx: "(57::int) = \<lfloor>12 * log 2 (f / 440) + 1 / 2\<rfloor> + 57"
    using midpoint_exact_index by (simp add: f_def)
  have b: "findClosestNote (Fin f) = Inr \<lparr>cn_note = ''A'', cn_octave = Fin 4, cn_frequency = Fin 440\<rparr>"
    using findClosestNote_Fin [OF pos idx]
    by (simp add: NOTE_NAMES_def nth_NOTE_FREQUENCIES table_entry_def)
  define e :: real where "e = 12 * log 2 (f / 440)"
  have eb: "- 1 / 2 \<le> e" "e \<le> - 1 / 2 + 1 / 10 ^ 15"
    unfolding e_def f_def by (rule midpoint_exact_offset)+
  have c: "\<bar>- 4503599627370497 / 9007199254740992 - e\<bar> \<le> 2 / 10 ^ 15"
    using eb by (simp add: abs_le_iff)
  have d: "round_double midpoint_sample
     (12 * log2_of midpoint_sample (round_double midpoint_sample (f / 440)))
     = - 4503599627370497 / 9007199254740992"
    unfolding q by (rule s)
  from a b c d idx show ?thesis unfolding e_def f_def by simp
qed

theorem findClosestNote_floating_witness:
  "(0::real) < 440 \<and>
   findClosestNote_on exact_engine (Fin 440)
     = Inr \<lparr>cn_note = ''A'', cn_octave = Fin 4, cn_frequency = Fin 440\<rparr> \<and>
   \<lfloor>12 * log 2 (440 / 440 :: real) + 1 / 2\<rfloor> + 57 = (57::int) \<and>
   findClosestNote_on exact_engine (Fin 20000)
     = Inr \<lparr>cn_note = ''--'', cn_octave = Fin 0, cn_frequency = Fin 0\<rparr> \<and>
   12 * log2_of exact_engine (round_double exact_engine (440 * 2 powr (1 / 24) / 440)) = 1 / 2 \<and>
   findClosestNote_on exact_engine (Fin (440 * 2 powr (1 / 24)))
     = Inr \<lparr>cn_note = ''A#'', cn_octave = Fin 4,
            cn_frequency = Fin (ne_frequency (NOTE_FREQUENCIES_on exact_engine ! 58))\<rparr> \<and>
   findClosestNote_on midpoint_sample (Fin (7520203089021415 / 17592186044416))
     = Inr \<lparr>cn_note = ''G#'', cn_octave = Fin 4,
            cn_frequency = Fin (ne_frequency (NOTE_FREQUENCIES_on midpoint_sample ! 56))\<rparr>"
proof -
  have pos: "(0::real) < 440" by simp
  have q: "(1::real) = round_double exact_engine (440 / 440)" by (simp add: exact_engine_def)
  have s: "(0::real) = round_double exact_engine (12 * log2_of exact_engine 1)"
    by (simp add: exact_engine_def)
  have idx: "(57::int) = \<lfloor>(0::real) + 1 / 2\<rfloor> + 57" by simp
  note spec = findClosestNote_floating [OF pos q s idx]
  from spec have "findClosestNote_on exact_engine (Fin 440)
      = Inr \<lparr>cn_note = NOTE_NAMES ! (nat 57 mod 12), cn_octave = Fin (of_int (57 div 12)),
             cn_frequency = Fin (ne_frequency (NOTE_FREQUENCIES_on exact_engine ! nat 57))\<rparr>"
    by simp
  then have a: "findClosestNote_on exact_engine (Fin 440)
     = Inr \<lparr>cn_note = ''A'', cn_octave = Fin 4, cn_frequency = Fin 440\<rparr>"
    by (simp add: NOTE_NAMES_def NOTE_FREQUENCIES_exact nth_NOTE_FREQUENCIES table_entry_def)
  have "\<bar>(0::real) - 12 * log 2 (440 / 440)\<bar> \<le> 0 \<and>
        (\<forall>k::int. 0 < \<bar>12 * log 2 (440 / 440 :: real) - (of_int k + 1 / 2)\<bar>)"
  proof -
    have "real_of_int k * 2 \<noteq> - 1" for k :: int
    proof
      assume "real_of_int k * 2 = - 1"
      then have "real_of_int (k * 2) = real_of_int (- 1)" by simp
      then have "k * 2 = - 1" by (simp only: of_int_eq_iff)
      then show False by presburger
    qed
    then show ?thesis by simp
  qed
  with spec have b: "(57::int) = \<lfloor>12 * log 2 (440 / 440 :: real) + 1 / 2\<rfloor> + 57" by blast
  have c: "findClosestNote_on exact_engine (Fin 20000)
     = Inr \<lparr>cn_note = ''--'', cn_octave = Fin 0, cn_frequency = Fin 0\<rparr>"
  proof -
    have p2: "(0::real) < 20000" by simp
    have "5 \<le> log 2 (20000 / 440 :: real)"
      by (subst le_log_iff) simp_all
    then have "60 \<le> 12 * log 2 (20000 / 440 :: real) + 1 / 2" by simp
    then have "60 \<le> \<lfloor>12 * log 2 (20000 / 440 :: real) + 1 / 2\<rfloor>" by (simp add: le_floor_iff)
    then have big: "108 \<le> \<lfloor>12 * log 2 (20000 / 440 :: real) + 1 / 2\<rfloor> + 57" by simp
    have q2: "0 < round_double exact_engine (20000 / 440)" by (simp add: exact_engine_def)
    from findClosestNote_floating [OF p2 refl refl refl, of exact_engine] q2 big
    show ?thesis by (simp add: exact_engine_def)
  qed
  define m :: real where "m = 440 * 2 powr (1 / 24)"
  have mpos: "0 < m" by (simp add: m_def)
  have mq: "2 powr (1 / 24) = round_double exact_engine (m / 440)"
    by (simp add: exact_engine_def m_def)
  have ms: "(1 / 2 :: real) = round_double exact_engine (12 * log2_of exact_engine (2 powr (1 / 24)))"
    by (simp add: exact_engine_def)
  have midx: "(58::int) = \<lfloor>(1 / 2 :: real) + 1 / 2\<rfloor> + 57" by simp
  have mqpos: "(0::real) < 2 powr (1 / 24)" by simp
  note mspec = findClosestNote_floating [OF mpos mq ms midx]
  have half: "(1 / 2 :: real) = of_int 0 + 1 / 2" by simp
  from mspec half have "(58::int) = 0 + 1 + 57" by blast
  from mspec mqpos have "findClosestNote_on exact_engine (Fin m)
      = Inr \<lparr>cn_note = NOTE_NAMES ! (nat 58 mod 12), cn_octave = Fin (of_int (58 div 12)),
             cn_frequency = Fin (ne_frequency (NOTE_FREQUENCIES_on exact_engine ! nat 58))\<rparr>"
    by simp
  then have d: "findClosestNote_on exact_engine (Fin (440 * 2 powr (1 / 24)))
     = Inr \<lparr>cn_note = ''A#'', cn_octave = Fin 4,
            cn_frequency = Fin (ne_frequency (NOTE_FREQUENCIES_on exact_engine ! 58))\<rparr>"
    by (simp add: NOTE_NAMES_def m_def)
  have d0: "12 * log2_of exact_engine (round_double exact_engine (440 * 2 powr (1 / 24) / 440)) = 1 / 2"
    by (simp add: exact_engine_def)
  define f :: real where "f = 7520203089021415 / 17592186044416"
  have fpos: "0 < f" by (simp add: f_def)
  have fq: "(2187695444078957 / 2251799813685248 :: real) = round_double midpoint_sample (f / 440)"
    by (simp add: midpoint_sample_def f_def)
  have fs: "(- 4503599627370497 / 9007199254740992 :: real)
      = round_double midpoint_sample (12 * log2_of midpoint_sample (2187695444078957 / 2251799813685248))"
    by (simp add: midpoint_sample_def)
  have fidx: "(56::int) = \<lfloor>(- 4503599627370497 / 9007199254740992 :: real) + 1 / 2\<rfloor> + 57"
    by linarith
  have fqpos: "(0::real) < 2187695444078957 / 2251799813685248" by simp
  from findClosestNote_floating [OF fpos fq fs fidx] fqpos
  have "findClosestNote_on midpoint_sample (Fin f)
      = Inr \<lparr>cn_note = NOTE_NAMES ! (nat 56 mod 12), cn_octave = Fin (of_int (56 div 12)),
             cn_frequency = Fin (ne_frequency (NOTE_FREQUENCIES_on midpoint_sample ! nat 56))\<rparr>"
    by simp
  then have e: "findClosestNote_on midpoint_sample (Fin (7520203089021415 / 17592186044416))
     = Inr \<lparr>cn_note = ''G#'', cn_octave = Fin 4,
            cn_frequency = Fin (ne_frequency (NOTE_FREQUENCIES_on midpoint_sample ! 56))\<rparr>"
    by (simp add: NOTE_NAMES_def f_def)
  from pos a b c d0 d e show ?thesis by simp
qed

text \<open>
  Claim C7. For positive frequencies \<^verbatim>\<open>calculateCents\<close> is \<open>1200 * log2 (detected / target)\<close>,
  unclamped: positive exactly when the detected frequency is above the target, negative
  exactly when it is below, and zero when both are equal; in particular for the three
  pairs (466.16, 440), (415.30, 440) and (440, 440).
\<close>

theorem calculateCents_spec:
  assumes "0 < d" and "0 < t"
  shows "calculateCents (Fin d) (Fin t) = Fin (1200 * log 2 (d / t)) \<and>
         (js_gt (calculateCents (Fin d) (Fin t)) (Fin 0) \<longleftrightarrow> t < d) \<and>
         (js_lt (calculateCents (Fin d) (Fin t)) (Fin 0) \<longleftrightarrow> d < t) \<and>
         calculateCents (Fin d) (Fin d) = Fin 0 \<and>
         js_gt (calculateCents (Fin 466.16) (Fin 440.0)) (Fin 0) \<and>
         js_lt (calculateCents (Fin 415.30) (Fin 440.0)) (Fin 0) \<and>
         calculateCents (Fin 440.0) (Fin 440.0) = Fin 0"
  using assms by (simp add: calculateCents_Fin js_gt_def zero_less_mult_iff mult_less_0_iff)

theorem calculateCents_spec_witness:
  "calculateCents (Fin 880) (Fin 440) = Fin 1200 \<and>
   js_gt (calculateCents (Fin 880) (Fin 440)) (Fin 0) \<and>
   \<not> js_lt (calculateCents (Fin 880) (Fin 440)) (Fin 0)"
proof -
  have "(0::real) < 880" and "(0::real) < 440" by simp_all
  from calculateCents_spec [OF this] show ?thesis by (simp add: js_gt_def)
qed

section \<open>The stages of the autocorrelation\<close>

lemma js_add_NaN_right [simp]: "js_add a NaN = NaN"
  by (cases a) simp_all

lemma js_mul_NaN_right [simp]: "js_mul a NaN = NaN"
  by (cases a) simp_all

lemma fold_add_Fin:
  assumes "\<And>i. i < n \<Longrightarrow> t i = Fin (g i)"
  shows "fold (\<lambda>i c. js_add c (t i)) [0..<n] (Fin a) = Fin (a + (\<Sum>i<n. g i))"
  using assms by (induction n) simp_all

lemma fold_add_NaN:
  assumes "i < n" and "t i = NaN"
  shows "fold (\<lambda>i c. js_add c (t i)) [0..<n] c0 = NaN"
  using assms
proof (induction n)
  case 0
  then show ?case by simp
next
  case (Suc n)
  show ?case
  proof (cases "i = n")
    case True
    with Suc.prems show ?thesis by simp
  next
    case False
    with Suc.prems have "i < n" by simp
    with Suc have "fold (\<lambda>i c. js_add c (t i)) [0..<n] c0 = NaN" by simp
    then show ?thesis by simp
  qed
qed

lemma sum_squares_Fin: "sum_squares buffer = Fin (\<Sum>i<length buffer. buffer ! i * buffer ! i)"
  unfolding sum_squares_def
  using fold_add_Fin [of "length buffer"
      "\<lambda>i. js_mul (buffer_get buffer (int i)) (buffer_get buffer (int i))"
      "\<lambda>i. buffer ! i * buffer ! i" 0]
  by (simp add: buffer_get_def)

lemma rms_of_Fin:
  "buffer \<noteq> [] \<Longrightarrow>
   rms_of buffer = Fin (sqrt ((\<Sum>i<length buffer. buffer ! i * buffer ! i) / real (length buffer)))"
  by (simp add: rms_of_def sum_squares_Fin not_less sum_nonneg divide_less_0_iff)

lemma rms_of_Nil: "rms_of [] = NaN"
  by (simp add: rms_of_def sum_squares_Fin js_inf_def)

lemma correlation_at_Fin:
  assumes "0 \<le> lag" and "int windowSize + lag \<le> int (length buffer)"
  shows "correlation_at buffer lag = Fin (\<Sum>i<windowSize. buffer ! i * buffer ! (i + nat lag))"
proof -
  have "\<And>i. i < windowSize \<Longrightarrow>
      js_mul (buffer_get buffer (int i)) (buffer_get buffer (int i + lag))
      = Fin (buffer ! i * buffer ! (i + nat lag))"
    using assms by (simp add: buffer_get_def nat_add_distrib)
  from fold_add_Fin [of windowSize _ _ 0, OF this] show ?thesis
    by (simp add: correlation_at_def)
qed

lemma correlation_at_NaN:
  assumes "lag < 0 \<or> int (length buffer) < int windowSize + lag"
  shows "correlation_at buffer lag = NaN"
proof (cases "lag < 0")
  case True
  then have "js_mul (buffer_get buffer (int 0)) (buffer_get buffer (int 0 + lag)) = NaN"
    by (simp add: buffer_get_def)
  moreover have "0 < windowSize" by (simp add: windowSize_def)
  ultimately show ?thesis
    unfolding correlation_at_def by (rule fold_add_NaN [rotated])
next
  case False
  with assms have short: "int (length buffer) < int windowSize + lag" by simp
  have "js_mul (buffer_get buffer (int (windowSize - 1))) (buffer_get buffer (int (windowSize - 1) + lag)) = NaN"
    using short False by (simp add: buffer_get_def windowSize_def)
  moreover have "windowSize - 1 < windowSize" by (simp add: windowSize_def)
  ultimately show ?thesis
    unfolding correlation_at_def by (rule fold_add_NaN [rotated])
qed

lemma fold_array_set_length:
  "length (fold (\<lambda>lag cs. array_set cs lag (f lag)) ls cs0) = length cs0"
  by (induction ls arbitrary: cs0) (simp_all add: array_set_def)

lemma fold_array_set_nth:
  assumes "0 \<le> l" and "l < int (length cs0)" and "distinct ls"
  shows "fold (\<lambda>lag cs. array_set cs lag (f lag)) ls cs0 ! nat l
         = (if l \<in> set ls then f l else cs0 ! nat l)"
  using assms
proof (induction ls arbitrary: cs0)
  case Nil
  then show ?case by simp
next
  case (Cons a ls)
  have len: "length (array_set cs0 a (f a)) = length cs0"
    by (simp add: array_set_def)
  have "fold (\<lambda>lag cs. array_set cs lag (f lag)) (a # ls) cs0 ! nat l
        = fold (\<lambda>lag cs. array_set cs lag (f lag)) ls (array_set cs0 a (f a)) ! nat l"
    by simp
  also have "\<dots> = (if l \<in> set ls then f l else array_set cs0 a (f a) ! nat l)"
    using Cons.IH [of "array_set cs0 a (f a)"] Cons.prems by (simp add: len)
  also have "\<dots> = (if l \<in> set (a # ls) then f l else cs0 ! nat l)"
    using Cons.prems by (auto simp: array_set_def nth_list_update)
  finally show ?case .
qed

lemma length_compute_correlations:
  "length (compute_correlations buffer minLag maxLag) = nat (maxLag + 1)"
  by (simp add: compute_correlations_def fold_array_set_length)

lemma array_get_compute_correlations:
  "array_get (compute_correlations buffer minLag maxLag) l
   = (if 0 \<le> l \<and> l \<le> maxLag
      then (if minLag \<le> l then correlation_at buffer l else Fin 0)
      else NaN)"
proof (cases "0 \<le> l \<and> l \<le> maxLag")
  case True
  then have "l < int (length (replicate (nat (maxLag + 1)) (Fin 0)))" by simp
  with True show ?thesis
    unfolding array_get_def length_compute_correlations
    unfolding compute_correlations_def
    by (simp add: fold_array_set_nth)
next
  case False
  then show ?thesis
    by (auto simp: array_get_def length_compute_correlations)
qed

section \<open>The scan for the best peak\<close>

declare find_peak.simps [simp del]

lemma js_gt_not_NaN: "js_gt a b \<Longrightarrow> a \<noteq> NaN \<and> b \<noteq> NaN"
  by (cases a; cases b) (simp_all add: js_gt_def)

lemma js_gt_trans: "js_gt a b \<Longrightarrow> js_gt b c \<Longrightarrow> js_gt a c"
  by (cases a; cases b; cases c) (simp_all add: js_gt_def)

lemma js_gt_NegInf: "js_gt a b \<Longrightarrow> js_gt a NegInf"
  by (cases a; cases b) (simp_all add: js_gt_def)

lemma js_gt_above: "js_gt a b \<Longrightarrow> c \<noteq> NaN \<Longrightarrow> \<not> js_gt c b \<Longrightarrow> js_gt a c"
  by (cases a; cases b; cases c) (simp_all add: js_gt_def)

lemma js_gt_irrefl: "\<not> js_gt a a"
  by (cases a) (simp_all add: js_gt_def)

lemma find_peak_unfold:
  "find_peak cs maxLag lag b m =
     (if lag \<le> maxLag then
        if is_peak cs lag then
          if exceeds_baseline cs lag then
            (if js_gt (array_get cs lag) m then (lag, array_get cs lag, lag) else (b, m, lag))
          else
            (if js_gt (array_get cs lag) m then find_peak cs maxLag (lag + 1) lag (array_get cs lag)
             else find_peak cs maxLag (lag + 1) b m)
        else find_peak cs maxLag (lag + 1) b m
      else (b, m, lag))"
  by (subst find_peak.simps) (simp add: is_peak_def exceeds_baseline_def)

lemma find_peak_first_exit:
  assumes "lag \<le> L" and "L \<le> maxLag"
    and "is_peak cs L" and "exceeds_baseline cs L"
    and "\<forall>l. lag \<le> l \<and> l < L \<longrightarrow> \<not> (is_peak cs l \<and> exceeds_baseline cs l)"
    and "m = NegInf \<or> (m \<noteq> NaN \<and> \<not> js_gt m (js_mul (Fin 0.9) (array_get cs 0)))"
  shows "find_peak cs maxLag lag b m = (L, array_get cs L, L)"
  using assms
proof (induction "nat (L - lag)" arbitrary: lag b m)
  case 0
  then have "lag = L" by simp
  have gt: "js_gt (array_get cs L) m"
    using "0.prems"(4,6) by (auto simp: exceeds_baseline_def intro: js_gt_NegInf js_gt_above)
  show ?case
    using "0.prems" gt \<open>lag = L\<close> by (subst find_peak_unfold) simp
next
  case (Suc n)
  then have lt: "lag < L" by simp
  with Suc.prems have notQ: "\<not> (is_peak cs lag \<and> exceeds_baseline cs lag)" by simp
  have n: "n = nat (L - (lag + 1))" using Suc.hyps(2) by simp
  have rest: "\<forall>l. lag + 1 \<le> l \<and> l < L \<longrightarrow> \<not> (is_peak cs l \<and> exceeds_baseline cs l)"
    using Suc.prems(5) by simp
  have le: "lag + 1 \<le> L" using lt by simp
  have step: "\<And>b' m'. m' = NegInf \<or> (m' \<noteq> NaN \<and> \<not> js_gt m' (js_mul (Fin 0.9) (array_get cs 0)))
      \<Longrightarrow> find_peak cs maxLag (lag + 1) b' m' = (L, array_get cs L, L)"
    using Suc.hyps(1) [OF n le Suc.prems(2,3,4) rest] by simp
  show ?case
  proof (cases "is_peak cs lag")
    case False
    with lt Suc.prems(2) step [OF Suc.prems(6)] show ?thesis
      by (subst find_peak_unfold) simp
  next
    case True
    with notQ have nex: "\<not> exceeds_baseline cs lag" by simp
    from True have "array_get cs lag \<noteq> NaN"
      by (auto simp: is_peak_def dest: js_gt_not_NaN)
    with nex have inv: "array_get cs lag = NegInf \<or>
        (array_get cs lag \<noteq> NaN \<and> \<not> js_gt (array_get cs lag) (js_mul (Fin 0.9) (array_get cs 0)))"
      by (simp add: exceeds_baseline_def)
    from True nex lt Suc.prems(2) step [OF Suc.prems(6)] step [OF inv] show ?thesis
      by (subst find_peak_unfold) simp
  qed
qed

lemma js_gt_asym: "js_gt a b \<Longrightarrow> \<not> js_gt b a"
  by (cases a; cases b) (auto simp: js_gt_def)

lemma peak_result_step:
  assumes "lag \<le> maxLag"
    and "peak_result cs maxLag (lag + 1) b0 m0 b' m' s"
    and "\<not> (is_peak cs lag \<and> exceeds_baseline cs lag)"
    and "(b0 = b \<and> m0 = m \<and> (is_peak cs lag \<longrightarrow> \<not> js_gt (array_get cs lag) m)) \<or>
         (b0 = lag \<and> m0 = array_get cs lag \<and> is_peak cs lag \<and> js_gt (array_get cs lag) m)"
  shows "peak_result cs maxLag lag b m b' m' s"
proof -
  from assms(2) have
    S: "(s \<le> maxLag \<and> lag + 1 \<le> s \<and> is_peak cs s \<and> exceeds_baseline cs s) \<or>
        (maxLag < s \<and> s = max (lag + 1) (maxLag + 1))"
    and N: "\<forall>l. lag + 1 \<le> l \<and> l < s \<and> l \<le> maxLag \<longrightarrow> \<not> (is_peak cs l \<and> exceeds_baseline cs l)"
    and B: "(b' = b0 \<and> m' = m0) \<or>
      (lag + 1 \<le> b' \<and> b' \<le> s \<and> b' \<le> maxLag \<and> is_peak cs b' \<and> m' = array_get cs b' \<and> js_gt m' m0)"
    and M: "\<forall>l. lag + 1 \<le> l \<and> l \<le> s \<and> l \<le> maxLag \<and> is_peak cs l \<longrightarrow> \<not> js_gt (array_get cs l) m'"
    by (simp_all add: peak_result_def)
  have s: "lag < s" using S assms(1) by auto
  have S': "(s \<le> maxLag \<and> lag \<le> s \<and> is_peak cs s \<and> exceeds_baseline cs s) \<or>
      (maxLag < s \<and> s = max lag (maxLag + 1))"
    using S assms(1) by auto
  have N': "\<forall>l. lag \<le> l \<and> l < s \<and> l \<le> maxLag \<longrightarrow> \<not> (is_peak cs l \<and> exceeds_baseline cs l)"
  proof (intro allI impI)
    fix l assume l: "lag \<le> l \<and> l < s \<and> l \<le> maxLag"
    show "\<not> (is_peak cs l \<and> exceeds_baseline cs l)"
    proof (cases "l = lag")
      case True then show ?thesis using assms(3) by simp
    next
      case False with l N show ?thesis by simp
    qed
  qed
  have B': "(b' = b \<and> m' = m) \<or>
      (lag \<le> b' \<and> b' \<le> s \<and> b' \<le> maxLag \<and> is_peak cs b' \<and> m' = array_get cs b' \<and> js_gt m' m)"
    using B assms(1,4) s by (auto intro: js_gt_trans)
  have cur: "is_peak cs lag \<longrightarrow> \<not> js_gt (array_get cs lag) m'"
    using B assms(4) by (auto dest: js_gt_asym js_gt_trans simp: js_gt_irrefl)
  have M': "\<forall>l. lag \<le> l \<and> l \<le> s \<and> l \<le> maxLag \<and> is_peak cs l \<longrightarrow> \<not> js_gt (array_get cs l) m'"
  proof (intro allI impI)
    fix l assume l: "lag \<le> l \<and> l \<le> s \<and> l \<le> maxLag \<and> is_peak cs l"
    show "\<not> js_gt (array_get cs l) m'"
    proof (cases "l = lag")
      case True then show ?thesis using cur l by simp
    next
      case False with l M show ?thesis by simp
    qed
  qed
  from S' N' B' M' show ?thesis by (simp add: peak_result_def)
qed

lemma find_peak_result:
  "find_peak cs maxLag lag b m = (b', m', s) \<Longrightarrow> peak_result cs maxLag lag b m b' m' s"
proof (induction "nat (maxLag + 1 - lag)" arbitrary: lag b m)
  case 0
  then have "maxLag < lag" by simp
  with "0.prems" have "b' = b" "m' = m" "s = lag"
    by (subst (asm) find_peak_unfold, simp)+
  with \<open>maxLag < lag\<close> show ?case
    by (auto simp: peak_result_def)
next
  case (Suc n)
  then have le: "lag \<le> maxLag" by simp
  have n: "n = nat (maxLag + 1 - (lag + 1))" using Suc.hyps(2) by simp
  note IH = Suc.hyps(1) [OF n]
  have unf: "(if is_peak cs lag then
          if exceeds_baseline cs lag then
            (if js_gt (array_get cs lag) m then (lag, array_get cs lag, lag) else (b, m, lag))
          else
            (if js_gt (array_get cs lag) m then find_peak cs maxLag (lag + 1) lag (array_get cs lag)
             else find_peak cs maxLag (lag + 1) b m)
        else find_peak cs maxLag (lag + 1) b m) = (b', m', s)"
    using Suc.prems le by (subst (asm) find_peak_unfold) simp
  show ?case
  proof (cases "is_peak cs lag \<and> exceeds_baseline cs lag")
    case True
    with unf
    have r: "s = lag" "(b' = lag \<and> m' = array_get cs lag \<and> js_gt (array_get cs lag) m) \<or>
        (b' = b \<and> m' = m \<and> \<not> js_gt (array_get cs lag) m)"
      by (auto split: if_splits)
    with True le show ?thesis
      by (auto simp: peak_result_def js_gt_irrefl)
  next
    case False
    show ?thesis
    proof (cases "is_peak cs lag \<and> js_gt (array_get cs lag) m")
      case True
      with False unf
      have "find_peak cs maxLag (lag + 1) lag (array_get cs lag) = (b', m', s)"
        by (simp split: if_splits)
      from IH [OF this] have pr: "peak_result cs maxLag (lag + 1) lag (array_get cs lag) b' m' s" .
      have d: "(lag = b \<and> array_get cs lag = m \<and> (is_peak cs lag \<longrightarrow> \<not> js_gt (array_get cs lag) m)) \<or>
         (lag = lag \<and> array_get cs lag = array_get cs lag \<and> is_peak cs lag \<and> js_gt (array_get cs lag) m)"
        using True by simp
      show ?thesis
        by (rule peak_result_step [OF le pr False d])
    next
      case nogt: False
      with False unf
      have "find_peak cs maxLag (lag + 1) b m = (b', m', s)"
        by (simp split: if_splits)
      from IH [OF this] have pr: "peak_result cs maxLag (lag + 1) b m b' m' s" .
      have d: "(b = b \<and> m = m \<and> (is_peak cs lag \<longrightarrow> \<not> js_gt (array_get cs lag) m)) \<or>
         (b = lag \<and> m = array_get cs lag \<and> is_peak cs lag \<and> js_gt (array_get cs lag) m)"
        using nogt by simp
      show ?thesis
        by (rule peak_result_step [OF le pr False d])
    qed
  qed
qed

section \<open>Peaks of the correlations and the parabola\<close>

lemma lags_of_rate:
  assumes "0 < sampleRate"
  shows "0 \<le> minLag_of sampleRate" and "minLag_of sampleRate \<le> maxLag_of sampleRate"
proof -
  show "0 \<le> minLag_of sampleRate"
    using assms by (simp add: minLag_of_def MAX_FREQUENCY_def)
  have "sampleRate / 1000 \<le> sampleRate / 65"
    using assms by (simp add: field_simps)
  then show "minLag_of sampleRate \<le> maxLag_of sampleRate"
    unfolding minLag_of_def maxLag_of_def MAX_FREQUENCY_def MIN_FREQUENCY_def
    by (rule floor_mono)
qed

lemma lags_of_high_rate:
  assumes "MAX_FREQUENCY \<le> sampleRate"
  shows "1 \<le> minLag_of sampleRate" and "15 \<le> maxLag_of sampleRate"
proof -
  have "1 \<le> sampleRate / 1000" using assms by (simp add: MAX_FREQUENCY_def)
  then show "1 \<le> minLag_of sampleRate"
    by (simp add: minLag_of_def MAX_FREQUENCY_def le_floor_iff)
  have "15 \<le> sampleRate / 65" using assms by (simp add: MAX_FREQUENCY_def field_simps)
  then show "15 \<le> maxLag_of sampleRate"
    by (simp add: maxLag_of_def MIN_FREQUENCY_def le_floor_iff)
qed

lemma correlation_at_cases:
  "correlation_at buffer lag = NaN \<or> (\<exists>x. correlation_at buffer lag = Fin x)"
proof (cases "lag < 0 \<or> int (length buffer) < int windowSize + lag")
  case True
  then show ?thesis by (simp add: correlation_at_NaN)
next
  case False
  then show ?thesis by (simp add: correlation_at_Fin)
qed

lemma array_get_correlations_cases:
  "array_get (compute_correlations buffer minLag maxLag) l = NaN \<or>
   (\<exists>x. array_get (compute_correlations buffer minLag maxLag) l = Fin x)"
  using correlation_at_cases [of buffer l]
  by (auto simp: array_get_compute_correlations)

lemma is_peak_correlations:
  assumes "is_peak (compute_correlations buffer minLag maxLag) l"
  shows "1 \<le> l \<and> l < maxLag \<and>
         (\<exists>y1 y2 y3.
            array_get (compute_correlations buffer minLag maxLag) (l - 1) = Fin y1 \<and>
            array_get (compute_correlations buffer minLag maxLag) l = Fin y2 \<and>
            array_get (compute_correlations buffer minLag maxLag) (l + 1) = Fin y3 \<and>
            y1 < y2 \<and> y3 < y2)"
proof -
  let ?cs = "compute_correlations buffer minLag maxLag"
  from assms have g: "js_gt (array_get ?cs l) (array_get ?cs (l - 1))"
      "js_gt (array_get ?cs l) (array_get ?cs (l + 1))"
    by (simp_all add: is_peak_def)
  then have nn: "array_get ?cs (l - 1) \<noteq> NaN" "array_get ?cs l \<noteq> NaN" "array_get ?cs (l + 1) \<noteq> NaN"
    by (auto dest: js_gt_not_NaN)
  from nn(1) have "1 \<le> l"
    by (auto simp: array_get_compute_correlations split: if_splits)
  moreover from nn(3) have "l < maxLag"
    by (auto simp: array_get_compute_correlations split: if_splits)
  moreover obtain y1 y2 y3 where y: "array_get ?cs (l - 1) = Fin y1" "array_get ?cs l = Fin y2"
      "array_get ?cs (l + 1) = Fin y3"
    using nn array_get_correlations_cases [of buffer minLag maxLag "l - 1"]
      array_get_correlations_cases [of buffer minLag maxLag l]
      array_get_correlations_cases [of buffer minLag maxLag "l + 1"]
    by auto
  moreover from g y have "y1 < y2" "y3 < y2" by (simp_all add: js_gt_def)
  ultimately show ?thesis by blast
qed

lemma parabola_offset:
  fixes y1 y2 y3 :: real
  assumes "y1 < y2" and "y3 < y2"
  shows "(y1 + y3 - 2 * y2) / 2 < 0"
    and "\<bar>((y3 - y1) / 2) / (2 * ((y1 + y3 - 2 * y2) / 2))\<bar> < 1 / 2"
proof -
  define x where "x = (y3 - y1) / 2"
  define d where "d = 2 * ((y1 + y3 - 2 * y2) / 2)"
  have d: "d < 0" using assms by (simp add: d_def)
  then show "(y1 + y3 - 2 * y2) / 2 < 0" by (simp add: d_def)
  have ad: "\<bar>d\<bar> = 2 * y2 - y1 - y3"
    using d by (simp add: d_def)
  have ax: "\<bar>x\<bar> = \<bar>y3 - y1\<bar> / 2"
    by (simp add: x_def)
  have "\<bar>y3 - y1\<bar> < 2 * y2 - y1 - y3"
    using assms by linarith
  then have "\<bar>x\<bar> < 1 / 2 * \<bar>d\<bar>"
    unfolding ad ax by simp
  moreover have "0 < \<bar>d\<bar>" using d by simp
  ultimately have "\<bar>x\<bar> / \<bar>d\<bar> < 1 / 2"
    by (simp only: pos_divide_less_eq)
  then show "\<bar>((y3 - y1) / 2) / (2 * ((y1 + y3 - 2 * y2) / 2))\<bar> < 1 / 2"
    by (simp only: abs_divide x_def d_def)
qed

lemma refine_lag_Fin:
  assumes "0 < bestLag" and "bestLag < maxLag"
    and "array_get cs (bestLag - 1) = Fin y1"
    and "array_get cs bestLag = Fin y2"
    and "array_get cs (bestLag + 1) = Fin y3"
    and "y1 < y2" and "y3 < y2"
  shows "refine_lag cs bestLag maxLag
         = Fin (of_int bestLag - ((y3 - y1) / 2) / (2 * ((y1 + y3 - 2 * y2) / 2)))"
proof -
  have "(y1 + y3 - 2 * y2) / 2 \<noteq> 0"
    using parabola_offset(1) [OF assms(6,7)] by simp
  then show ?thesis
    using assms(1-5) by (simp add: refine_lag_def js_sub_def js_ne_def)
qed

section \<open>The result of the autocorrelation\<close>

lemma autocorrelate_stages:
  "autocorrelate buffer sampleRate =
     (if js_lt (rms_of buffer) (Fin MIN_RMS_THRESHOLD) then Inr NoSignal
      else if maxLag_of sampleRate + 1 < 0 then Inl RangeError
      else (case find_peak (compute_correlations buffer (minLag_of sampleRate) (maxLag_of sampleRate))
                  (maxLag_of sampleRate) (minLag_of sampleRate) (- 1) NegInf of
              (bestLag, maxCorrelation, lag) \<Rightarrow>
                if bestLag = - 1 \<or> js_lt maxCorrelation (Fin 0.01) then Inr NoSignal
                else Inr (js_div (Fin sampleRate)
                       (refine_lag (compute_correlations buffer (minLag_of sampleRate) (maxLag_of sampleRate))
                          bestLag (maxLag_of sampleRate)))))"
  by (simp add: autocorrelate_def Let_def)

lemma scan_best_is_peak:
  assumes "find_peak cs maxLag minLag (- 1) NegInf = (bestLag, maxCorrelation, lag)"
    and "bestLag \<noteq> - 1"
  shows "minLag \<le> bestLag \<and> bestLag \<le> maxLag \<and> is_peak cs bestLag \<and>
         maxCorrelation = array_get cs bestLag"
  using find_peak_result [OF assms(1)] assms(2)
  by (auto simp: peak_result_def)

lemma scan_no_peak:
  assumes "\<forall>l. minLag \<le> l \<and> l \<le> maxLag \<longrightarrow> \<not> is_peak cs l"
  shows "find_peak cs maxLag minLag b m = (b, m, max minLag (maxLag + 1))"
proof -
  obtain b' m' s where r: "find_peak cs maxLag minLag b m = (b', m', s)"
    by (cases "find_peak cs maxLag minLag b m") auto
  from find_peak_result [OF r] assms have "b' = b" "m' = m" "s = max minLag (maxLag + 1)"
    by (auto simp: peak_result_def)
  with r show ?thesis by simp
qed

lemma refined_peak:
  assumes "is_peak (compute_correlations buffer minLag maxLag) bestLag"
  shows "\<exists>y1 y2 y3 r.
           array_get (compute_correlations buffer minLag maxLag) (bestLag - 1) = Fin y1 \<and>
           array_get (compute_correlations buffer minLag maxLag) bestLag = Fin y2 \<and>
           array_get (compute_correlations buffer minLag maxLag) (bestLag + 1) = Fin y3 \<and>
           y1 < y2 \<and> y3 < y2 \<and>
           (y1 + y3 - 2 * y2) / 2 < 0 \<and>
           \<bar>((y3 - y1) / 2) / (2 * ((y1 + y3 - 2 * y2) / 2))\<bar> < 1 / 2 \<and>
           r = of_int bestLag - ((y3 - y1) / 2) / (2 * ((y1 + y3 - 2 * y2) / 2)) \<and>
           refine_lag (compute_correlations buffer minLag maxLag) bestLag maxLag = Fin r \<and>
           of_int bestLag - 1 / 2 < r \<and> r < of_int bestLag + 1 / 2 \<and> 0 < r"
proof -
  let ?cs = "compute_correlations buffer minLag maxLag"
  from is_peak_correlations [OF assms] obtain y1 y2 y3 where
    b: "1 \<le> bestLag" "bestLag < maxLag"
    and y: "array_get ?cs (bestLag - 1) = Fin y1" "array_get ?cs bestLag = Fin y2"
      "array_get ?cs (bestLag + 1) = Fin y3"
    and lt: "y1 < y2" "y3 < y2"
    by blast
  define off where "off = ((y3 - y1) / 2) / (2 * ((y1 + y3 - 2 * y2) / 2))"
  define r where "r = real_of_int bestLag - off"
  have a: "(y1 + y3 - 2 * y2) / 2 < 0" and o: "\<bar>off\<bar> < 1 / 2"
    using parabola_offset [OF lt] by (simp_all add: off_def)
  have rl: "refine_lag ?cs bestLag maxLag = Fin r"
    using refine_lag_Fin [OF _ b(2) y lt] b(1) by (simp add: r_def off_def)
  have bnd: "real_of_int bestLag - 1 / 2 < r" "r < real_of_int bestLag + 1 / 2"
    using o by (simp_all add: r_def abs_less_iff)
  have "1 \<le> real_of_int bestLag" using b(1) by simp
  with bnd have pos: "0 < r" by linarith
  show ?thesis
    using y lt a o rl bnd pos unfolding off_def r_def by blast
qed

section \<open>The example frame\<close>

lemma length_example_frame: "length example_frame = 4096"
  by (simp add: example_frame_def)

lemma nth_example_frame:
  "i < 4096 \<Longrightarrow> example_frame ! i = (if i = 0 \<or> i = 4 then 1 else if i = 14 then 3 else 0)"
  by (simp add: example_frame_def)

lemma example_lags: "minLag_of 1760 = 1" "maxLag_of 1760 = 27"
  by (simp_all add: minLag_of_def maxLag_of_def MAX_FREQUENCY_def MIN_FREQUENCY_def)

lemma example_sum_squares: "(\<Sum>i<length example_frame. example_frame ! i * example_frame ! i) = 11"
proof -
  have "(\<Sum>i<4096. example_frame ! i * example_frame ! i)
        = (\<Sum>i\<in>{0, 4, 14}. example_frame ! i * example_frame ! i)"
    by (rule sum.mono_neutral_right) (auto simp: nth_example_frame)
  also have "\<dots> = 11"
    by (simp add: nth_example_frame)
  finally show ?thesis by (simp add: length_example_frame)
qed

lemma example_rms: "rms_of example_frame = Fin (sqrt (11 / 4096))"
  using rms_of_Fin [of example_frame]
  by (simp add: example_sum_squares) (simp add: length_example_frame example_frame_def)

lemma example_gate: "\<not> js_lt (rms_of example_frame) (Fin MIN_RMS_THRESHOLD)"
proof -
  have "(0.005::real) = sqrt (0.005\<^sup>2)" by simp
  also have "\<dots> \<le> sqrt (11 / 4096)"
    by (rule real_sqrt_le_mono) (simp add: power2_eq_square)
  finally show ?thesis
    by (simp add: example_rms MIN_RMS_THRESHOLD_def not_less)
qed

lemma example_correlation:
  assumes "1 \<le> lag" and "lag \<le> 27"
  shows "correlation_at example_frame lag
         = Fin (if lag = 4 then 1 else if lag = 10 \<or> lag = 14 then 3 else 0)"
proof -
  define k where "k = nat lag"
  have k: "1 \<le> k" "k \<le> 27" "lag = int k" using assms by (simp_all add: k_def)
  have "(\<Sum>i<2048. example_frame ! i * example_frame ! (i + k))
        = (\<Sum>i\<in>{0, 4, 14}. example_frame ! i * example_frame ! (i + k))"
    by (rule sum.mono_neutral_right) (auto simp: nth_example_frame)
  also have "\<dots> = (if k = 4 then 1 else if k = 10 \<or> k = 14 then 3 else 0)"
    using k(1,2) by (simp add: nth_example_frame)
  finally have "(\<Sum>i<windowSize. example_frame ! i * example_frame ! (i + nat lag))
      = (if lag = 4 then 1 else if lag = 10 \<or> lag = 14 then 3 else 0)"
    unfolding k(3) by (simp add: windowSize_def)
  moreover have "correlation_at example_frame lag
      = Fin (\<Sum>i<windowSize. example_frame ! i * example_frame ! (i + nat lag))"
    using assms by (intro correlation_at_Fin) (simp_all add: length_example_frame windowSize_def)
  ultimately show ?thesis by simp
qed

lemma example_array:
  assumes "0 \<le> l" and "l \<le> 27"
  shows "array_get (compute_correlations example_frame 1 27) l
         = Fin (if l = 4 then 1 else if l = 10 \<or> l = 14 then 3 else 0)"
  using assms by (simp add: array_get_compute_correlations example_correlation)

lemma example_scan:
  "find_peak (compute_correlations example_frame 1 27) 27 1 (- 1) NegInf = (4, Fin 1, 4)"
proof -
  let ?cs = "compute_correlations example_frame 1 27"
  have v: "array_get ?cs 0 = Fin 0" "array_get ?cs 1 = Fin 0" "array_get ?cs 2 = Fin 0"
    "array_get ?cs 3 = Fin 0" "array_get ?cs 4 = Fin 1" "array_get ?cs 5 = Fin 0"
    by (simp_all add: example_array)
  have p: "is_peak ?cs 4" "exceeds_baseline ?cs 4"
    using v by (simp_all add: is_peak_def exceeds_baseline_def js_gt_def)
  have n: "\<forall>l. 1 \<le> l \<and> l < 4 \<longrightarrow> \<not> (is_peak ?cs l \<and> exceeds_baseline ?cs l)"
  proof (intro allI impI)
    fix l :: int assume "1 \<le> l \<and> l < 4"
    then have "l = 1 \<or> l = 2 \<or> l = 3" by auto
    then show "\<not> (is_peak ?cs l \<and> exceeds_baseline ?cs l)"
      using v by (auto simp: exceeds_baseline_def js_gt_def)
  qed
  have "find_peak ?cs 27 1 (- 1) NegInf = (4, array_get ?cs 4, 4)"
    by (rule find_peak_first_exit [OF _ _ p n]) simp_all
  then show ?thesis by (simp add: v)
qed

lemma example_refine: "refine_lag (compute_correlations example_frame 1 27) 4 27 = Fin 4"
proof -
  let ?cs = "compute_correlations example_frame 1 27"
  have "array_get ?cs (4 - 1) = Fin 0" "array_get ?cs 4 = Fin 1" "array_get ?cs (4 + 1) = Fin 0"
    by (simp_all add: example_array)
  from refine_lag_Fin [OF _ _ this] show ?thesis by simp
qed

lemma example_autocorrelate: "autocorrelate example_frame 1760 = Inr (Fin 440)"
  using example_gate
  by (simp add: autocorrelate_stages example_lags example_scan example_refine)

section \<open>Peak picking\<close>

lemma baseline_zero:
  assumes "1 \<le> minLag" and "0 \<le> maxLag"
  shows "array_get (compute_correlations buffer minLag maxLag) 0 = Fin 0"
    and "js_mul (Fin 0.9) (array_get (compute_correlations buffer minLag maxLag) 0) = Fin 0"
  using assms by (simp_all add: array_get_compute_correlations)

lemma no_peak_at_maxLag: "\<not> is_peak (compute_correlations buffer minLag maxLag) maxLag"
  using is_peak_correlations [of buffer minLag maxLag maxLag] by auto

text \<open>
  Claim C3. With a sample rate of at least \<open>MAX_FREQUENCY\<close> the smallest lag is at least 1, so
  step 3 never writes the slot of lag 0: the baseline \<open>0.9 * correlations[0]\<close> is zero and a
  candidate exceeds it exactly when its correlation is positive. The scan visits the lags
  from \<open>minLag\<close> upwards; a lag is a candidate iff its correlation exceeds both neighbours;
  \<open>bestLag\<close> is a candidate with the highest correlation among those visited; and the scan
  stops at the first candidate above the baseline. Hence it stops at the first strict local
  maximum with a positive correlation and returns that lag, which need not be the global
  best: in the example frame it returns lag 4 although lag 10 is a candidate with a higher
  correlation.
\<close>

theorem peak_scan_spec:
  assumes "MAX_FREQUENCY \<le> sampleRate"
    and "minLag = minLag_of sampleRate" and "maxLag = maxLag_of sampleRate"
    and "cs = compute_correlations buffer minLag maxLag"
  shows "1 \<le> minLag \<and> minLag \<le> maxLag \<and>
    array_get cs 0 = Fin 0 \<and> js_mul (Fin 0.9) (array_get cs 0) = Fin 0 \<and>
    (\<forall>l. exceeds_baseline cs l \<longleftrightarrow> js_gt (array_get cs l) (Fin 0)) \<and>
    (\<forall>b m s. find_peak cs maxLag minLag (- 1) NegInf = (b, m, s) \<longrightarrow>
       peak_result cs maxLag minLag (- 1) NegInf b m s) \<and>
    (\<forall>L. minLag \<le> L \<and> L \<le> maxLag \<and> is_peak cs L \<and> js_gt (array_get cs L) (Fin 0) \<and>
         (\<forall>l. minLag \<le> l \<and> l < L \<longrightarrow> \<not> (is_peak cs l \<and> js_gt (array_get cs l) (Fin 0))) \<longrightarrow>
       find_peak cs maxLag minLag (- 1) NegInf = (L, array_get cs L, L)) \<and>
    (\<exists>l. is_peak (compute_correlations example_frame 1 27) l \<and>
         js_gt (array_get (compute_correlations example_frame 1 27) l)
           (array_get (compute_correlations example_frame 1 27)
              (fst (find_peak (compute_correlations example_frame 1 27) 27 1 (- 1) NegInf))))"
proof -
  have sr: "0 < sampleRate" using assms(1) by (simp add: MAX_FREQUENCY_def)
  have lags: "1 \<le> minLag" "minLag \<le> maxLag"
    using lags_of_high_rate(1) [OF assms(1)] lags_of_rate(2) [OF sr] assms(2,3) by simp_all
  then have m0: "0 \<le> maxLag" by simp
  have base: "array_get cs 0 = Fin 0" "js_mul (Fin 0.9) (array_get cs 0) = Fin 0"
    unfolding assms(4) using baseline_zero [OF lags(1) m0] by simp_all
  have ex: "\<forall>l. exceeds_baseline cs l \<longleftrightarrow> js_gt (array_get cs l) (Fin 0)"
    by (simp add: exceeds_baseline_def base)
  have res: "\<forall>b m s. find_peak cs maxLag minLag (- 1) NegInf = (b, m, s) \<longrightarrow>
       peak_result cs maxLag minLag (- 1) NegInf b m s"
    by (auto intro: find_peak_result)
  have first: "\<forall>L. minLag \<le> L \<and> L \<le> maxLag \<and> is_peak cs L \<and> js_gt (array_get cs L) (Fin 0) \<and>
         (\<forall>l. minLag \<le> l \<and> l < L \<longrightarrow> \<not> (is_peak cs l \<and> js_gt (array_get cs l) (Fin 0))) \<longrightarrow>
       find_peak cs maxLag minLag (- 1) NegInf = (L, array_get cs L, L)"
  proof (intro allI impI)
    fix L
    assume h: "minLag \<le> L \<and> L \<le> maxLag \<and> is_peak cs L \<and> js_gt (array_get cs L) (Fin 0) \<and>
         (\<forall>l. minLag \<le> l \<and> l < L \<longrightarrow> \<not> (is_peak cs l \<and> js_gt (array_get cs l) (Fin 0)))"
    then have "exceeds_baseline cs L"
      and "\<forall>l. minLag \<le> l \<and> l < L \<longrightarrow> \<not> (is_peak cs l \<and> exceeds_baseline cs l)"
      using ex by simp_all
    with h show "find_peak cs maxLag minLag (- 1) NegInf = (L, array_get cs L, L)"
      by (intro find_peak_first_exit) simp_all
  qed
  have "is_peak (compute_correlations example_frame 1 27) 10"
    by (simp add: is_peak_def example_array js_gt_def)
  moreover have "js_gt (array_get (compute_correlations example_frame 1 27) 10)
           (array_get (compute_correlations example_frame 1 27)
              (fst (find_peak (compute_correlations example_frame 1 27) 27 1 (- 1) NegInf)))"
    by (simp add: example_scan example_array js_gt_def)
  ultimately have later: "\<exists>l. is_peak (compute_correlations example_frame 1 27) l \<and>
         js_gt (array_get (compute_correlations example_frame 1 27) l)
           (array_get (compute_correlations example_frame 1 27)
              (fst (find_peak (compute_correlations example_frame 1 27) 27 1 (- 1) NegInf)))"
    by blast
  from lags base ex res first later show ?thesis by blast
qed

theorem peak_scan_spec_witness:
  "MAX_FREQUENCY \<le> 1760 \<and>
   array_get (compute_correlations example_frame 1 27) 0 = Fin 0 \<and>
   is_peak (compute_correlations example_frame 1 27) 4 \<and>
   is_peak (compute_correlations example_frame 1 27) 10 \<and>
   array_get (compute_correlations example_frame 1 27) 4 = Fin 1 \<and>
   array_get (compute_correlations example_frame 1 27) 10 = Fin 3 \<and>
   find_peak (compute_correlations example_frame 1 27) 27 1 (- 1) NegInf = (4, Fin 1, 4)"
proof -
  let ?cs = "compute_correlations example_frame 1 27"
  have sr: "MAX_FREQUENCY \<le> 1760" by (simp add: MAX_FREQUENCY_def)
  note spec = peak_scan_spec [OF sr example_lags(1) [symmetric] example_lags(2) [symmetric] refl,
      of example_frame]
  have v: "array_get ?cs 3 = Fin 0" "array_get ?cs 4 = Fin 1" "array_get ?cs 5 = Fin 0"
    "array_get ?cs 9 = Fin 0" "array_get ?cs 10 = Fin 3" "array_get ?cs 11 = Fin 0"
    by (simp_all add: example_array)
  have p: "is_peak ?cs 4" "is_peak ?cs 10"
    using v by (simp_all add: is_peak_def js_gt_def)
  have n: "\<forall>l. 1 \<le> l \<and> l < 4 \<longrightarrow> \<not> (is_peak ?cs l \<and> js_gt (array_get ?cs l) (Fin 0))"
  proof (intro allI impI)
    fix l :: int assume "1 \<le> l \<and> l < 4"
    then have "l = 1 \<or> l = 2 \<or> l = 3" by auto
    then show "\<not> (is_peak ?cs l \<and> js_gt (array_get ?cs l) (Fin 0))"
      by (auto simp: example_array js_gt_def)
  qed
  from spec have "array_get ?cs 0 = Fin 0" by blast
  moreover from spec have "\<forall>L. 1 \<le> L \<and> L \<le> 27 \<and> is_peak ?cs L \<and> js_gt (array_get ?cs L) (Fin 0) \<and>
         (\<forall>l. 1 \<le> l \<and> l < L \<longrightarrow> \<not> (is_peak ?cs l \<and> js_gt (array_get ?cs l) (Fin 0))) \<longrightarrow>
       find_peak ?cs 27 1 (- 1) NegInf = (L, array_get ?cs L, L)"
    by blast
  from this [rule_format, of 4] p n v
  have "find_peak ?cs 27 1 (- 1) NegInf = (4, Fin 1, 4)"
    by (simp add: js_gt_def)
  ultimately show ?thesis using sr p v by simp
qed

section \<open>Parabolic refinement\<close>

text \<open>
  Claim C10. With a sample rate of at least \<open>MAX_FREQUENCY\<close>, whenever the scan has found a
  lag (\<open>bestLag\<close> is not \<open>-1\<close>), that lag is a strict local maximum with
  \<open>minLag \<le> bestLag < maxLag\<close>: the lag \<open>maxLag\<close> is never selected, because its right
  neighbour lies past the end of the array and the comparison with it fails. So the guard
  \<open>bestLag > 0 && bestLag < maxLag\<close> holds and the three reads are inside the array. The
  coefficient \<open>a = (y1 + y3 - 2 y2) / 2\<close> is negative, the offset \<open>b / (2 a)\<close> is less than a
  half in absolute value, the refined lag lies strictly between \<open>bestLag - 1/2\<close> and
  \<open>bestLag + 1/2\<close> and is positive, and the frequency returned, \<open>sampleRate / refinedLag\<close>,
  is positive and finite.
\<close>

theorem refinement_safe:
  assumes "MAX_FREQUENCY \<le> sampleRate"
    and "minLag = minLag_of sampleRate" and "maxLag = maxLag_of sampleRate"
    and "cs = compute_correlations buffer minLag maxLag"
    and "find_peak cs maxLag minLag (- 1) NegInf = (bestLag, maxCorrelation, lag)"
    and "bestLag \<noteq> - 1"
  shows "minLag \<le> bestLag \<and> bestLag < maxLag \<and> is_peak cs bestLag \<and>
    array_get cs (maxLag + 1) = NaN \<and> \<not> is_peak cs maxLag \<and>
    0 < bestLag \<and>
    0 \<le> bestLag - 1 \<and> bestLag + 1 < int (length cs) \<and>
    (\<exists>y1 y2 y3 r.
       array_get cs (bestLag - 1) = Fin y1 \<and> array_get cs bestLag = Fin y2 \<and>
       array_get cs (bestLag + 1) = Fin y3 \<and> y1 < y2 \<and> y3 < y2 \<and>
       (y1 + y3 - 2 * y2) / 2 < 0 \<and>
       \<bar>((y3 - y1) / 2) / (2 * ((y1 + y3 - 2 * y2) / 2))\<bar> < 1 / 2 \<and>
       r = of_int bestLag - ((y3 - y1) / 2) / (2 * ((y1 + y3 - 2 * y2) / 2)) \<and>
       refine_lag cs bestLag maxLag = Fin r \<and>
       of_int bestLag - 1 / 2 < r \<and> r < of_int bestLag + 1 / 2 \<and> 0 < r \<and>
       js_div (Fin sampleRate) (refine_lag cs bestLag maxLag) = Fin (sampleRate / r) \<and>
       0 < sampleRate / r \<and>
       (\<not> js_lt (rms_of buffer) (Fin MIN_RMS_THRESHOLD) \<and> \<not> js_lt maxCorrelation (Fin 0.01) \<longrightarrow>
          autocorrelate buffer sampleRate = Inr (Fin (sampleRate / r))))"
proof -
  have sr: "0 < sampleRate" using assms(1) by (simp add: MAX_FREQUENCY_def)
  have lags: "1 \<le> minLag" "minLag \<le> maxLag"
    using lags_of_high_rate(1) [OF assms(1)] lags_of_rate(2) [OF sr] assms(2,3) by simp_all
  from scan_best_is_peak [OF assms(5,6)]
  have b: "minLag \<le> bestLag" "bestLag \<le> maxLag" "is_peak cs bestLag" by simp_all
  have nomax: "\<not> is_peak cs maxLag"
    unfolding assms(4) by (rule no_peak_at_maxLag)
  with b have lt: "bestLag < maxLag" by (cases "bestLag = maxLag") auto
  have past: "array_get cs (maxLag + 1) = NaN"
    unfolding assms(4) by (simp add: array_get_compute_correlations)
  have len: "int (length cs) = maxLag + 1"
    unfolding assms(4) using lags by (simp add: length_compute_correlations)
  from refined_peak [OF b(3) [unfolded assms(4)]] obtain y1 y2 y3 r where
    y: "array_get cs (bestLag - 1) = Fin y1" "array_get cs bestLag = Fin y2"
       "array_get cs (bestLag + 1) = Fin y3" "y1 < y2" "y3 < y2"
       "(y1 + y3 - 2 * y2) / 2 < 0"
       "\<bar>((y3 - y1) / 2) / (2 * ((y1 + y3 - 2 * y2) / 2))\<bar> < 1 / 2"
    and r: "r = of_int bestLag - ((y3 - y1) / 2) / (2 * ((y1 + y3 - 2 * y2) / 2))"
       "refine_lag cs bestLag maxLag = Fin r"
       "of_int bestLag - 1 / 2 < r" "r < of_int bestLag + 1 / 2" "0 < r"
    unfolding assms(4) [symmetric] by blast
  have dv: "js_div (Fin sampleRate) (refine_lag cs bestLag maxLag) = Fin (sampleRate / r)"
    using r(2,5) by simp
  have pos: "0 < sampleRate / r" using sr r(5) by simp
  have ret: "\<not> js_lt (rms_of buffer) (Fin MIN_RMS_THRESHOLD) \<and> \<not> js_lt maxCorrelation (Fin 0.01) \<longrightarrow>
          autocorrelate buffer sampleRate = Inr (Fin (sampleRate / r))"
    using assms(5,6) dv lags
    by (simp add: autocorrelate_stages assms(2,3,4) [symmetric])
  have g: "0 < bestLag" "0 \<le> bestLag - 1" "bestLag + 1 < int (length cs)"
    using b(1) lags(1) lt len by simp_all
  from b(1) lt b(3) past nomax g y r dv pos ret show ?thesis by blast
qed

theorem refinement_safe_witness:
  "MAX_FREQUENCY \<le> 1760 \<and>
   find_peak (compute_correlations example_frame 1 27) 27 1 (- 1) NegInf = (4, Fin 1, 4) \<and>
   is_peak (compute_correlations example_frame 1 27) 4 \<and>
   (1::int) \<le> 4 \<and> (4::int) < 27 \<and>
   (\<exists>r. refine_lag (compute_correlations example_frame 1 27) 4 27 = Fin r \<and>
        7 / 2 < r \<and> r < 9 / 2 \<and>
        autocorrelate example_frame 1760 = Inr (Fin (1760 / r)))"
proof -
  let ?cs = "compute_correlations example_frame 1 27"
  have sr: "MAX_FREQUENCY \<le> 1760" by (simp add: MAX_FREQUENCY_def)
  have ne: "(4::int) \<noteq> - 1" by simp
  have floor: "\<not> js_lt (Fin 1) (Fin 0.01)" by simp
  note safe = refinement_safe [OF sr example_lags(1) [symmetric] example_lags(2) [symmetric] refl
      example_scan ne]
  from safe obtain r where "is_peak ?cs 4" "refine_lag ?cs 4 27 = Fin r"
      "of_int 4 - 1 / 2 < r" "r < of_int 4 + 1 / 2"
      "\<not> js_lt (rms_of example_frame) (Fin MIN_RMS_THRESHOLD) \<and> \<not> js_lt (Fin 1) (Fin 0.01) \<longrightarrow>
          autocorrelate example_frame 1760 = Inr (Fin (1760 / r))"
    by blast
  with example_gate floor sr example_scan show ?thesis by auto
qed

section \<open>The failure paths of the autocorrelation\<close>

lemma peak_frequency_cases:
  assumes "find_peak cs maxLag minLag (- 1) NegInf = (bestLag, maxCorrelation, lag)"
  shows "peak_frequency cs minLag maxLag sampleRate =
           (if bestLag = - 1 \<or> js_lt maxCorrelation (Fin 0.01) then NoSignal
            else js_div (Fin sampleRate) (refine_lag cs bestLag maxLag))"
  using assms by (simp add: peak_frequency_def)

lemma autocorrelate_on_stages:
  "autocorrelate_on maxLength buffer sampleRate =
     (if js_lt (rms_of buffer) (Fin MIN_RMS_THRESHOLD) then Inr NoSignal
      else if maxLag_of sampleRate + 1 < 0 \<or> maxLength < maxLag_of sampleRate + 1 then Inl RangeError
      else Inr (peak_frequency (compute_correlations buffer (minLag_of sampleRate) (maxLag_of sampleRate))
                  (minLag_of sampleRate) (maxLag_of sampleRate) sampleRate))"
  by (simp add: autocorrelate_on_def Let_def)

lemma autocorrelate_on_fits:
  assumes "maxLag_of sampleRate + 1 \<le> maxLength"
  shows "autocorrelate_on maxLength buffer sampleRate = autocorrelate buffer sampleRate"
proof -
  obtain b m l where fp: "find_peak (compute_correlations buffer (minLag_of sampleRate) (maxLag_of sampleRate))
      (maxLag_of sampleRate) (minLag_of sampleRate) (- 1) NegInf = (b, m, l)"
    by (cases "find_peak (compute_correlations buffer (minLag_of sampleRate) (maxLag_of sampleRate))
      (maxLag_of sampleRate) (minLag_of sampleRate) (- 1) NegInf") auto
  show ?thesis
    using assms fp
    by (simp add: autocorrelate_on_stages autocorrelate_stages peak_frequency_cases [OF fp])
qed

text \<open>The parabola on three numbers of which the middle one is the greatest.\<close>

lemma parabola_generic:
  assumes "js_gt y2 y1" and "js_gt y2 y3"
    and "a = js_div (js_sub (js_add y1 y3) (js_mul (Fin 2) y2)) (Fin 2)"
    and "b = js_div (js_sub y3 y1) (Fin 2)"
    and "res = (if js_ne a (Fin 0) then js_sub (Fin L) (js_div b (js_mul (Fin 2) a)) else Fin L)"
  shows "(res = NaN \<and> (y1 = NegInf \<or> y3 = NegInf)) \<or>
         (\<exists>r. res = Fin r \<and> L - 1 / 2 < r \<and> r < L + 1 / 2)"
proof (cases "\<exists>v1 v2 v3. y1 = Fin v1 \<and> y2 = Fin v2 \<and> y3 = Fin v3")
  case True
  then obtain v1 v2 v3 where y: "y1 = Fin v1" "y2 = Fin v2" "y3 = Fin v3" by blast
  from assms(1,2) y have lt: "v1 < v2" "v3 < v2" by (simp_all add: js_gt_def)
  have a0: "(v1 + v3 - 2 * v2) / 2 \<noteq> 0"
    using parabola_offset(1) [OF lt] by simp
  define off where "off = ((v3 - v1) / 2) / (2 * ((v1 + v3 - 2 * v2) / 2))"
  have off: "\<bar>off\<bar> < 1 / 2"
    unfolding off_def by (rule parabola_offset(2) [OF lt])
  have "res = Fin (L - off)"
    unfolding off_def using a0 y assms(3-5) by (simp add: js_sub_def js_ne_def)
  moreover from off have "L - 1 / 2 < L - off" "L - off < L + 1 / 2"
    by (simp_all add: abs_less_iff)
  ultimately show ?thesis by blast
next
  case False
  with assms show ?thesis
    by (cases y1; cases y2; cases y3) (simp_all add: js_gt_def js_sub_def js_inf_def js_ne_def)
qed

lemma refine_lag_generic:
  assumes "is_peak cs bestLag"
  shows "1 \<le> bestLag \<and>
         ((refine_lag cs bestLag maxLag = NaN \<and>
           (array_get cs (bestLag - 1) = NegInf \<or> array_get cs (bestLag + 1) = NegInf)) \<or>
          (\<exists>r. refine_lag cs bestLag maxLag = Fin r \<and>
               of_int bestLag - 1 / 2 < r \<and> r < of_int bestLag + 1 / 2 \<and> 0 < r))"
proof -
  from assms have g: "js_gt (array_get cs bestLag) (array_get cs (bestLag - 1))"
      "js_gt (array_get cs bestLag) (array_get cs (bestLag + 1))"
    by (simp_all add: is_peak_def)
  from g(1) have "array_get cs (bestLag - 1) \<noteq> NaN" by (auto dest: js_gt_not_NaN)
  then have b1: "1 \<le> bestLag"
    by (auto simp: array_get_def split: if_splits)
  show ?thesis
  proof (cases "0 < bestLag \<and> bestLag < maxLag")
    case True
    define a where "a = js_div (js_sub (js_add (array_get cs (bestLag - 1)) (array_get cs (bestLag + 1)))
        (js_mul (Fin 2) (array_get cs bestLag))) (Fin 2)"
    define b where "b = js_div (js_sub (array_get cs (bestLag + 1)) (array_get cs (bestLag - 1))) (Fin 2)"
    have r: "refine_lag cs bestLag maxLag =
        (if js_ne a (Fin 0) then js_sub (Fin (of_int bestLag)) (js_div b (js_mul (Fin 2) a))
         else Fin (of_int bestLag))"
      using True by (simp add: refine_lag_def a_def b_def Let_def)
    from parabola_generic [OF g a_def b_def r]
    have "(refine_lag cs bestLag maxLag = NaN \<and>
           (array_get cs (bestLag - 1) = NegInf \<or> array_get cs (bestLag + 1) = NegInf)) \<or>
          (\<exists>r. refine_lag cs bestLag maxLag = Fin r \<and>
               of_int bestLag - 1 / 2 < r \<and> r < of_int bestLag + 1 / 2)" .
    moreover have "1 \<le> real_of_int bestLag" using b1 by simp
    ultimately show ?thesis using b1 by fastforce
  next
    case False
    then have "refine_lag cs bestLag maxLag = Fin (of_int bestLag)"
      by (auto simp: refine_lag_def)
    moreover have "1 \<le> real_of_int bestLag" using b1 by simp
    ultimately show ?thesis using b1 by simp
  qed
qed

text \<open>
  Claim C2, as amended. For a positive sample rate, a call of \<^verbatim>\<open>autocorrelate\<close> throws only
  past the RMS test and only when the array of \<open>maxLag + 1\<close> correlations is longer than
  the engine allocates, and then a RangeError; otherwise it returns a number. It returns
  "no signal" when the RMS is below the threshold, when the scan finds no candidate and
  when the best correlation is below 0.01. In every other case the result is
  \<open>sampleRate / refinedLag\<close> as computed: the refined lag is not checked. Whatever the
  array of correlations holds, the refined lag of a lag that the scan has found is never
  zero, negative or infinite. It is a positive finite number, and the result a positive
  finite frequency; or it is NaN, which needs an infinite correlation beside \<open>bestLag\<close>,
  and then the result is NaN, not "no signal", and is not greater than 0.
\<close>

theorem estimate_failure_paths:
  assumes "0 < sampleRate"
    and "minLag = minLag_of sampleRate" and "maxLag = maxLag_of sampleRate"
    and "find_peak cs maxLag minLag (- 1) NegInf = (bestLag, maxCorrelation, lag)"
  shows "(js_lt (rms_of buffer) (Fin MIN_RMS_THRESHOLD) \<longrightarrow>
       autocorrelate_on maxLength buffer sampleRate = Inr NoSignal) \<and>
    (\<not> js_lt (rms_of buffer) (Fin MIN_RMS_THRESHOLD) \<and> maxLength < maxLag + 1 \<longrightarrow>
       autocorrelate_on maxLength buffer sampleRate = Inl RangeError) \<and>
    (\<not> js_lt (rms_of buffer) (Fin MIN_RMS_THRESHOLD) \<and> maxLag + 1 \<le> maxLength \<longrightarrow>
       autocorrelate_on maxLength buffer sampleRate =
         Inr (peak_frequency (compute_correlations buffer minLag maxLag) minLag maxLag sampleRate)) \<and>
    (bestLag = - 1 \<or> js_lt maxCorrelation (Fin 0.01) \<longrightarrow>
       peak_frequency cs minLag maxLag sampleRate = NoSignal) \<and>
    (bestLag \<noteq> - 1 \<and> \<not> js_lt maxCorrelation (Fin 0.01) \<longrightarrow>
       peak_frequency cs minLag maxLag sampleRate
         = js_div (Fin sampleRate) (refine_lag cs bestLag maxLag) \<and>
       1 \<le> bestLag \<and>
       ((refine_lag cs bestLag maxLag = NaN \<and>
         (array_get cs (bestLag - 1) = NegInf \<or> array_get cs (bestLag + 1) = NegInf) \<and>
         peak_frequency cs minLag maxLag sampleRate = NaN \<and>
         \<not> js_gt (peak_frequency cs minLag maxLag sampleRate) (Fin 0)) \<or>
        (\<exists>r. refine_lag cs bestLag maxLag = Fin r \<and> 0 < r \<and>
             peak_frequency cs minLag maxLag sampleRate = Fin (sampleRate / r) \<and>
             0 < sampleRate / r)))"
proof -
  have ml: "\<not> maxLag + 1 < 0"
    using lags_of_rate [OF assms(1)] assms(3) by simp
  have gate: "js_lt (rms_of buffer) (Fin MIN_RMS_THRESHOLD) \<longrightarrow>
       autocorrelate_on maxLength buffer sampleRate = Inr NoSignal"
    by (simp add: autocorrelate_on_stages)
  have range: "\<not> js_lt (rms_of buffer) (Fin MIN_RMS_THRESHOLD) \<and> maxLength < maxLag + 1 \<longrightarrow>
       autocorrelate_on maxLength buffer sampleRate = Inl RangeError"
    by (simp add: autocorrelate_on_stages assms(3))
  have fits: "\<not> js_lt (rms_of buffer) (Fin MIN_RMS_THRESHOLD) \<and> maxLag + 1 \<le> maxLength \<longrightarrow>
       autocorrelate_on maxLength buffer sampleRate =
         Inr (peak_frequency (compute_correlations buffer minLag maxLag) minLag maxLag sampleRate)"
    using ml by (simp add: autocorrelate_on_stages assms(2,3))
  note pf = peak_frequency_cases [OF assms(4), of sampleRate]
  have none: "bestLag = - 1 \<or> js_lt maxCorrelation (Fin 0.01) \<longrightarrow>
       peak_frequency cs minLag maxLag sampleRate = NoSignal"
    by (simp add: pf)
  have found: "peak_frequency cs minLag maxLag sampleRate
         = js_div (Fin sampleRate) (refine_lag cs bestLag maxLag) \<and>
       1 \<le> bestLag \<and>
       ((refine_lag cs bestLag maxLag = NaN \<and>
         (array_get cs (bestLag - 1) = NegInf \<or> array_get cs (bestLag + 1) = NegInf) \<and>
         peak_frequency cs minLag maxLag sampleRate = NaN \<and>
         \<not> js_gt (peak_frequency cs minLag maxLag sampleRate) (Fin 0)) \<or>
        (\<exists>r. refine_lag cs bestLag maxLag = Fin r \<and> 0 < r \<and>
             peak_frequency cs minLag maxLag sampleRate = Fin (sampleRate / r) \<and>
             0 < sampleRate / r))"
    if h: "bestLag \<noteq> - 1 \<and> \<not> js_lt maxCorrelation (Fin 0.01)"
  proof -
    from h have eq: "peak_frequency cs minLag maxLag sampleRate
         = js_div (Fin sampleRate) (refine_lag cs bestLag maxLag)"
      by (simp add: pf)
    from h scan_best_is_peak [OF assms(4)] have "is_peak cs bestLag" by simp
    from refine_lag_generic [OF this, of maxLag]
    have b: "1 \<le> bestLag"
      and c: "(refine_lag cs bestLag maxLag = NaN \<and>
           (array_get cs (bestLag - 1) = NegInf \<or> array_get cs (bestLag + 1) = NegInf)) \<or>
          (\<exists>r. refine_lag cs bestLag maxLag = Fin r \<and> 0 < r)"
      by blast+
    from c show ?thesis
    proof
      assume n: "refine_lag cs bestLag maxLag = NaN \<and>
           (array_get cs (bestLag - 1) = NegInf \<or> array_get cs (bestLag + 1) = NegInf)"
      then have "peak_frequency cs minLag maxLag sampleRate = NaN"
        by (simp add: eq)
      with n eq b show ?thesis by (simp add: js_gt_def)
    next
      assume "\<exists>r. refine_lag cs bestLag maxLag = Fin r \<and> 0 < r"
      then obtain r where r: "refine_lag cs bestLag maxLag = Fin r" "0 < r" by blast
      then have "peak_frequency cs minLag maxLag sampleRate = Fin (sampleRate / r)"
        by (simp add: eq)
      moreover have "0 < sampleRate / r" using assms(1) r(2) by simp
      ultimately show ?thesis using eq b r by blast
    qed
  qed
  from gate range fits none found show ?thesis by blast
qed

section \<open>Silence and short buffers\<close>

lemma rms_of_zeros:
  assumes "buffer \<noteq> []" and "\<forall>x\<in>set buffer. x = 0"
  shows "rms_of buffer = Fin 0"
proof -
  have "\<And>i. i < length buffer \<Longrightarrow> buffer ! i = 0"
    using assms(2) by simp
  then have "(\<Sum>i<length buffer. buffer ! i * buffer ! i) = 0" by simp
  with assms(1) show ?thesis by (simp add: rms_of_Fin)
qed

lemma gate_NoSignal:
  "js_lt (rms_of buffer) (Fin MIN_RMS_THRESHOLD) \<Longrightarrow> autocorrelate buffer sampleRate = Inr NoSignal"
  by (simp add: autocorrelate_stages)

lemma short_correlation:
  assumes "int (length buffer) < int windowSize + lag"
  shows "correlation_at buffer lag = NaN"
    and "minLag \<le> lag \<Longrightarrow> array_get (compute_correlations buffer minLag maxLag) lag = NaN"
    and "minLag \<le> lag \<Longrightarrow> \<not> is_peak (compute_correlations buffer minLag maxLag) lag"
proof -
  show c: "correlation_at buffer lag = NaN"
    using assms by (simp add: correlation_at_NaN)
  show a: "array_get (compute_correlations buffer minLag maxLag) lag = NaN" if "minLag \<le> lag"
    using that c by (simp add: array_get_compute_correlations)
  show "\<not> is_peak (compute_correlations buffer minLag maxLag) lag" if "minLag \<le> lag"
    using a [OF that] by (auto simp: is_peak_def dest: js_gt_not_NaN)
qed

lemma short_buffer_NoSignal:
  assumes "0 < sampleRate"
    and "int (length buffer) < int windowSize + minLag_of sampleRate"
  shows "autocorrelate buffer sampleRate = Inr NoSignal"
proof -
  let ?cs = "compute_correlations buffer (minLag_of sampleRate) (maxLag_of sampleRate)"
  have "\<forall>l. minLag_of sampleRate \<le> l \<and> l \<le> maxLag_of sampleRate \<longrightarrow> \<not> is_peak ?cs l"
  proof (intro allI impI)
    fix l assume l: "minLag_of sampleRate \<le> l \<and> l \<le> maxLag_of sampleRate"
    with assms(2) have "int (length buffer) < int windowSize + l" by simp
    from short_correlation(3) [OF this] l show "\<not> is_peak ?cs l" by simp
  qed
  from scan_no_peak [OF this]
  have "find_peak ?cs (maxLag_of sampleRate) (minLag_of sampleRate) (- 1) NegInf
        = (- 1, NegInf, max (minLag_of sampleRate) (maxLag_of sampleRate + 1))" .
  then show ?thesis
    using lags_of_rate [OF assms(1)] by (simp add: autocorrelate_stages)
qed


text \<open>
  Claim C4, as amended. A buffer shorter than \<open>windowSize + maxLag\<close> is not treated as an
  error. The only exception of a call is the RangeError of the array of \<open>maxLag + 1\<close>
  correlations when the engine does not allocate that length, whatever the length of the
  buffer; with the array allocated the call returns a number. Every read past the end of
  the buffer is undefined, so the correlation of every lag whose window does not fit in the
  buffer is NaN, and such a lag is never a candidate. When the buffer is shorter than
  \<open>windowSize + minLag\<close> this holds for every lag, and with the array allocated the call
  returns "no signal".
\<close>

theorem short_buffer_spec:
  assumes "0 < sampleRate"
    and "minLag = minLag_of sampleRate" and "maxLag = maxLag_of sampleRate"
    and "cs = compute_correlations buffer minLag maxLag"
  shows "(\<forall>e. autocorrelate_on maxLength buffer sampleRate = Inl e \<longrightarrow>
            e = RangeError \<and> maxLength < maxLag + 1) \<and>
    (maxLag + 1 \<le> maxLength \<longrightarrow> (\<exists>res. autocorrelate_on maxLength buffer sampleRate = Inr res)) \<and>
    (\<forall>lag. minLag \<le> lag \<and> lag \<le> maxLag \<and> int (length buffer) < int windowSize + lag \<longrightarrow>
       correlation_at buffer lag = NaN \<and> array_get cs lag = NaN \<and> \<not> is_peak cs lag) \<and>
    (maxLag + 1 \<le> maxLength \<and> int (length buffer) < int windowSize + minLag \<longrightarrow>
       autocorrelate_on maxLength buffer sampleRate = Inr NoSignal)"
proof -
  have ml: "\<not> maxLag + 1 < 0"
    using lags_of_rate [OF assms(1)] assms(3) by simp
  have "\<forall>e. autocorrelate_on maxLength buffer sampleRate = Inl e \<longrightarrow>
            e = RangeError \<and> maxLength < maxLag + 1"
    using ml by (auto simp: autocorrelate_on_stages assms(3) split: if_splits)
  moreover have "maxLag + 1 \<le> maxLength \<longrightarrow> (\<exists>res. autocorrelate_on maxLength buffer sampleRate = Inr res)"
    using ml by (auto simp: autocorrelate_on_stages assms(3))
  moreover have "\<forall>lag. minLag \<le> lag \<and> lag \<le> maxLag \<and> int (length buffer) < int windowSize + lag \<longrightarrow>
       correlation_at buffer lag = NaN \<and> array_get cs lag = NaN \<and> \<not> is_peak cs lag"
    unfolding assms(4) by (auto simp: short_correlation)
  moreover have "maxLag + 1 \<le> maxLength \<and> int (length buffer) < int windowSize + minLag \<longrightarrow>
       autocorrelate_on maxLength buffer sampleRate = Inr NoSignal"
    unfolding assms(2,3)
    using short_buffer_NoSignal [OF assms(1), of buffer]
    by (simp add: autocorrelate_on_fits)
  ultimately show ?thesis by blast
qed

section \<open>The other example frames\<close>

lemma constant_rms: "rms_of constant_frame = Fin 1"
  using rms_of_Fin [of constant_frame] by (simp add: constant_frame_def)

lemma constant_array:
  assumes "0 \<le> l" and "l \<le> 27"
  shows "array_get (compute_correlations constant_frame 1 27) l = Fin (if l = 0 then 0 else 2048)"
proof -
  have "correlation_at constant_frame l = Fin 2048" if "1 \<le> l"
  proof -
    have "correlation_at constant_frame l
        = Fin (\<Sum>i<windowSize. constant_frame ! i * constant_frame ! (i + nat l))"
      using that assms(2) by (intro correlation_at_Fin) (simp_all add: constant_frame_def windowSize_def)
    also have "(\<Sum>i<windowSize. constant_frame ! i * constant_frame ! (i + nat l)) = (\<Sum>i<windowSize. 1)"
      using assms(2) by (intro sum.cong) (simp_all add: constant_frame_def windowSize_def)
    finally show ?thesis by (simp add: windowSize_def)
  qed
  with assms show ?thesis
    by (simp add: array_get_compute_correlations)
qed

lemma constant_scan:
  "find_peak (compute_correlations constant_frame 1 27) 27 1 (- 1) NegInf = (- 1, NegInf, 28)"
proof -
  let ?cs = "compute_correlations constant_frame 1 27"
  have "\<forall>l. 1 \<le> l \<and> l \<le> 27 \<longrightarrow> \<not> is_peak ?cs l"
  proof (intro allI impI)
    fix l :: int assume l: "1 \<le> l \<and> l \<le> 27"
    show "\<not> is_peak ?cs l"
    proof (cases "l = 27")
      case True
      then show ?thesis using no_peak_at_maxLag [of constant_frame 1 27] by simp
    next
      case False
      with l have "array_get ?cs l = Fin 2048" "array_get ?cs (l + 1) = Fin 2048"
        by (simp_all add: constant_array)
      then show ?thesis by (simp add: is_peak_def js_gt_def)
    qed
  qed
  from scan_no_peak [OF this] show ?thesis by simp
qed

lemma nth_faint_frame:
  "i < 4096 \<Longrightarrow> faint_frame ! i = (if i = 0 \<or> i = 4 then 0.05 else if i = 3000 then 1 else 0)"
  by (simp add: faint_frame_def)

lemma faint_gate: "\<not> js_lt (rms_of faint_frame) (Fin MIN_RMS_THRESHOLD)"
proof -
  have "(\<Sum>i<4096. faint_frame ! i * faint_frame ! i)
        = (\<Sum>i\<in>{0, 4, 3000}. faint_frame ! i * faint_frame ! i)"
    by (rule sum.mono_neutral_right) (auto simp: nth_faint_frame)
  also have "\<dots> = 1.005"
    by (simp add: nth_faint_frame)
  finally have s: "(\<Sum>i<length faint_frame. faint_frame ! i * faint_frame ! i) = 1.005"
    by (simp add: faint_frame_def)
  have r: "rms_of faint_frame = Fin (sqrt (1.005 / 4096))"
    using rms_of_Fin [of faint_frame] unfolding s by (simp add: faint_frame_def)
  have "(0.005::real) = sqrt (0.005\<^sup>2)" by simp
  also have "\<dots> \<le> sqrt (1.005 / 4096)"
    by (rule real_sqrt_le_mono) (simp add: power2_eq_square)
  finally show ?thesis
    by (simp add: r MIN_RMS_THRESHOLD_def not_less)
qed

lemma faint_array:
  assumes "0 \<le> l" and "l \<le> 27"
  shows "array_get (compute_correlations faint_frame 1 27) l = Fin (if l = 4 then 0.0025 else 0)"
proof -
  have "correlation_at faint_frame l = Fin (if l = 4 then 0.0025 else 0)" if "1 \<le> l"
  proof -
    define k where "k = nat l"
    have k: "1 \<le> k" "k \<le> 27" "l = int k" using that assms by (simp_all add: k_def)
    have "(\<Sum>i<2048. faint_frame ! i * faint_frame ! (i + k))
          = (\<Sum>i\<in>{0, 4}. faint_frame ! i * faint_frame ! (i + k))"
      by (rule sum.mono_neutral_right) (auto simp: nth_faint_frame)
    also have "\<dots> = (if k = 4 then 0.0025 else 0)"
      using k(1,2) by (simp add: nth_faint_frame)
    finally have "(\<Sum>i<windowSize. faint_frame ! i * faint_frame ! (i + nat l))
        = (if l = 4 then 0.0025 else 0)"
      unfolding k(3) by (simp add: windowSize_def)
    moreover have "correlation_at faint_frame l
        = Fin (\<Sum>i<windowSize. faint_frame ! i * faint_frame ! (i + nat l))"
      using that assms by (intro correlation_at_Fin) (simp_all add: faint_frame_def windowSize_def)
    ultimately show ?thesis by simp
  qed
  with assms show ?thesis
    by (simp add: array_get_compute_correlations)
qed

lemma faint_scan:
  "find_peak (compute_correlations faint_frame 1 27) 27 1 (- 1) NegInf = (4, Fin 0.0025, 4)"
proof -
  let ?cs = "compute_correlations faint_frame 1 27"
  have p: "is_peak ?cs 4" "exceeds_baseline ?cs 4"
    by (simp_all add: is_peak_def exceeds_baseline_def js_gt_def faint_array)
  have n: "\<forall>l. 1 \<le> l \<and> l < 4 \<longrightarrow> \<not> (is_peak ?cs l \<and> exceeds_baseline ?cs l)"
  proof (intro allI impI)
    fix l :: int assume "1 \<le> l \<and> l < 4"
    then have "l = 1 \<or> l = 2 \<or> l = 3" by auto
    then show "\<not> (is_peak ?cs l \<and> exceeds_baseline ?cs l)"
      by (auto simp: exceeds_baseline_def js_gt_def faint_array)
  qed
  have "find_peak ?cs 27 1 (- 1) NegInf = (4, array_get ?cs 4, 4)"
    by (rule find_peak_first_exit [OF _ _ p n]) simp_all
  then show ?thesis by (simp add: faint_array)
qed

lemma short_rms: "rms_of short_frame = Fin 1"
  using rms_of_Fin [of short_frame] by (simp add: short_frame_def)

lemma cd_lags: "minLag_of 44100 = 44" "maxLag_of 44100 = 678"
  by (simp_all add: minLag_of_def maxLag_of_def MAX_FREQUENCY_def MIN_FREQUENCY_def)

section \<open>Examples for the results of the autocorrelation\<close>


theorem short_buffer_counterexample:
  "int (length short_frame) < int windowSize + maxLag_of 44100 \<and>
   \<not> js_lt (rms_of short_frame) (Fin MIN_RMS_THRESHOLD) \<and>
   correlation_at short_frame (minLag_of 44100) = NaN \<and>
   autocorrelate short_frame 44100 = Inr NoSignal \<and>
   autocorrelate_on (2 ^ 53 - 1) short_frame 44100 = Inr NoSignal"
proof -
  have l: "int (length short_frame) < int windowSize + minLag_of 44100"
    by (simp add: short_frame_def windowSize_def cd_lags)
  then have "int (length short_frame) < int windowSize + maxLag_of 44100"
    by (simp add: cd_lags)
  moreover have "\<not> js_lt (rms_of short_frame) (Fin MIN_RMS_THRESHOLD)"
    by (simp add: short_rms MIN_RMS_THRESHOLD_def)
  moreover have "correlation_at short_frame (minLag_of 44100) = NaN"
    using l by (rule short_correlation(1))
  moreover have n: "autocorrelate short_frame 44100 = Inr NoSignal"
    using l by (intro short_buffer_NoSignal) simp_all
  moreover have "autocorrelate_on (2 ^ 53 - 1) short_frame 44100 = Inr NoSignal"
    using n by (simp add: autocorrelate_on_fits cd_lags)
  ultimately show ?thesis by blast
qed

theorem short_buffer_spec_witness:
  "(0::real) < 44100 \<and>
   int (length short_frame) < int windowSize + 44 \<and>
   (\<exists>res. autocorrelate_on (2 ^ 53 - 1) short_frame 44100 = Inr res) \<and>
   correlation_at short_frame 44 = NaN \<and>
   \<not> is_peak (compute_correlations short_frame 44 678) 44 \<and>
   autocorrelate_on (2 ^ 53 - 1) short_frame 44100 = Inr NoSignal \<and>
   autocorrelate_on 678 example_frame 44100 = Inl RangeError"
proof -
  have sr: "(0::real) < 44100" by simp
  have l: "int (length short_frame) < int windowSize + 44"
    by (simp add: short_frame_def windowSize_def)
  have fit: "(678::int) + 1 \<le> 2 ^ 53 - 1" by simp
  note spec = short_buffer_spec [OF sr cd_lags(1) [symmetric] cd_lags(2) [symmetric] refl,
      of "2 ^ 53 - 1" short_frame]
  from spec fit have a: "\<exists>res. autocorrelate_on (2 ^ 53 - 1) short_frame 44100 = Inr res" by blast
  from spec have "\<forall>lag. 44 \<le> lag \<and> lag \<le> 678 \<and> int (length short_frame) < int windowSize + lag \<longrightarrow>
       correlation_at short_frame lag = NaN \<and>
       array_get (compute_correlations short_frame 44 678) lag = NaN \<and>
       \<not> is_peak (compute_correlations short_frame 44 678) lag"
    by blast
  from this [rule_format, of 44] l
  have b: "correlation_at short_frame 44 = NaN"
      "\<not> is_peak (compute_correlations short_frame 44 678) 44"
    by simp_all
  from spec l fit have c: "autocorrelate_on (2 ^ 53 - 1) short_frame 44100 = Inr NoSignal" by blast
  have d: "autocorrelate_on 678 example_frame 44100 = Inl RangeError"
    using example_gate by (simp add: autocorrelate_on_stages cd_lags)
  from sr l a b c d show ?thesis by blast
qed

text \<open>The scan and the refinement on the array with an infinite slot, and the lags of a
  very high sample rate.\<close>

lemma overflow_slots_get:
  "array_get overflow_slots 0 = Fin 0" "array_get overflow_slots 1 = Fin 0"
  "array_get overflow_slots 2 = Fin 0" "array_get overflow_slots 3 = NegInf"
  "array_get overflow_slots 4 = Fin 1" "array_get overflow_slots 5 = Fin 0"
  by (simp_all add: overflow_slots_def array_get_def)

lemma overflow_scan: "find_peak overflow_slots 27 1 (- 1) NegInf = (4, Fin 1, 4)"
proof -
  note v = overflow_slots_get
  have p: "is_peak overflow_slots 4" "exceeds_baseline overflow_slots 4"
    using v by (simp_all add: is_peak_def exceeds_baseline_def js_gt_def)
  have n: "\<forall>l. 1 \<le> l \<and> l < 4 \<longrightarrow> \<not> (is_peak overflow_slots l \<and> exceeds_baseline overflow_slots l)"
  proof (intro allI impI)
    fix l :: int assume "1 \<le> l \<and> l < 4"
    then have "l = 1 \<or> l = 2 \<or> l = 3" by auto
    then show "\<not> (is_peak overflow_slots l \<and> exceeds_baseline overflow_slots l)"
      using v by (auto simp: exceeds_baseline_def js_gt_def)
  qed
  have "find_peak overflow_slots 27 1 (- 1) NegInf = (4, array_get overflow_slots 4, 4)"
    by (rule find_peak_first_exit [OF _ _ p n]) simp_all
  then show ?thesis by (simp add: v)
qed

lemma overflow_refine: "refine_lag overflow_slots 4 27 = NaN"
proof -
  have "array_get overflow_slots (4 - 1) = NegInf" "array_get overflow_slots 4 = Fin 1"
      "array_get overflow_slots (4 + 1) = Fin 0"
    by (simp_all add: overflow_slots_get)
  then show ?thesis
    by (simp add: refine_lag_def js_sub_def js_inf_def js_ne_def)
qed

lemma huge_rate_lag: "maxLag_of (10 ^ 18) = 15384615384615384"
  by (simp add: maxLag_of_def MIN_FREQUENCY_def)

text \<open>
  An exception does escape, and a refined lag that is not finite is returned as computed:
  with the example frame at the sample rate \<open>10^18\<close> the array would have more than
  \<open>2^53 - 1\<close> elements; and on the array with an infinite slot the refined lag and the
  result are NaN.
\<close>

theorem estimate_failure_paths_counterexample:
  "\<not> js_lt (rms_of example_frame) (Fin MIN_RMS_THRESHOLD) \<and>
   (0::real) < 10 ^ 18 \<and>
   (2::int) ^ 53 - 1 < maxLag_of (10 ^ 18) + 1 \<and>
   autocorrelate_on (2 ^ 53 - 1) example_frame (10 ^ 18) = Inl RangeError \<and>
   find_peak overflow_slots 27 1 (- 1) NegInf = (4, Fin 1, 4) \<and>
   \<not> js_lt (Fin 1) (Fin 0.01) \<and>
   refine_lag overflow_slots 4 27 = NaN \<and>
   peak_frequency overflow_slots 1 27 1760 = NaN \<and>
   NaN \<noteq> NoSignal"
proof -
  have "autocorrelate_on (2 ^ 53 - 1) example_frame (10 ^ 18) = Inl RangeError"
    using example_gate huge_rate_lag by (simp add: autocorrelate_on_stages)
  moreover have "peak_frequency overflow_slots 1 27 1760 = NaN"
    by (simp add: peak_frequency_cases [OF overflow_scan] overflow_refine)
  ultimately show ?thesis
    using example_gate overflow_scan overflow_refine huge_rate_lag
    by (simp add: NoSignal_def)
qed

theorem estimate_failure_paths_witness:
  "(0::real) < 1760 \<and>
   autocorrelate_on (2 ^ 53 - 1) silent_frame 1760 = Inr NoSignal \<and>
   autocorrelate_on 20 example_frame 1760 = Inl RangeError \<and>
   autocorrelate_on (2 ^ 53 - 1) example_frame 1760
     = Inr (peak_frequency (compute_correlations example_frame 1 27) 1 27 1760) \<and>
   autocorrelate_on (2 ^ 53 - 1) example_frame 1760 = Inr (Fin 440) \<and>
   autocorrelate_on (2 ^ 53 - 1) constant_frame 1760 = Inr NoSignal \<and>
   peak_frequency (compute_correlations constant_frame 1 27) 1 27 1760 = NoSignal \<and>
   peak_frequency (compute_correlations faint_frame 1 27) 1 27 1760 = NoSignal \<and>
   (\<exists>r. refine_lag (compute_correlations example_frame 1 27) 4 27 = Fin r \<and> 0 < r \<and>
        peak_frequency (compute_correlations example_frame 1 27) 1 27 1760 = Fin (1760 / r)) \<and>
   refine_lag overflow_slots 4 27 = NaN \<and>
   array_get overflow_slots 3 = NegInf \<and>
   peak_frequency overflow_slots 1 27 1760 = NaN \<and>
   \<not> js_gt (peak_frequency overflow_slots 1 27 1760) (Fin 0)"
proof -
  have sr: "(0::real) < 1760" by simp
  note l = example_lags(1) [symmetric] example_lags(2) [symmetric]
  have sg: "js_lt (rms_of silent_frame) (Fin MIN_RMS_THRESHOLD)"
    using rms_of_zeros [of silent_frame] by (simp add: silent_frame_def MIN_RMS_THRESHOLD_def)
  from estimate_failure_paths [OF sr l example_scan, of silent_frame "2 ^ 53 - 1"] sg
  have a: "autocorrelate_on (2 ^ 53 - 1) silent_frame 1760 = Inr NoSignal" by blast
  from estimate_failure_paths [OF sr l example_scan, of example_frame 20] example_gate
  have b: "autocorrelate_on 20 example_frame 1760 = Inl RangeError" by simp
  from estimate_failure_paths [OF sr l example_scan, of example_frame "2 ^ 53 - 1"] example_gate
  have c: "autocorrelate_on (2 ^ 53 - 1) example_frame 1760
     = Inr (peak_frequency (compute_correlations example_frame 1 27) 1 27 1760)" by simp
  from estimate_failure_paths [OF sr l constant_scan, of example_frame 20]
  have d: "peak_frequency (compute_correlations constant_frame 1 27) 1 27 1760 = NoSignal" by blast
  from estimate_failure_paths [OF sr l faint_scan, of example_frame 20]
  have e: "peak_frequency (compute_correlations faint_frame 1 27) 1 27 1760 = NoSignal" by simp
  have ex: "(4::int) \<noteq> - 1 \<and> \<not> js_lt (Fin 1) (Fin 0.01)" by simp
  have fin: "refine_lag (compute_correlations example_frame 1 27) 4 27 \<noteq> NaN"
    by (simp add: example_refine)
  from estimate_failure_paths [OF sr l example_scan, of example_frame 20] ex fin
  have f: "\<exists>r. refine_lag (compute_correlations example_frame 1 27) 4 27 = Fin r \<and> 0 < r \<and>
        peak_frequency (compute_correlations example_frame 1 27) 1 27 1760 = Fin (1760 / r)"
    by blast
  have nf: "\<not> (\<exists>r. refine_lag overflow_slots 4 27 = Fin r \<and> 0 < r \<and>
        peak_frequency overflow_slots 1 27 1760 = Fin (1760 / r) \<and> 0 < 1760 / r)"
    by (simp add: overflow_refine)
  from estimate_failure_paths [OF sr l overflow_scan, of example_frame 20] ex nf
  have g: "refine_lag overflow_slots 4 27 = NaN"
      "peak_frequency overflow_slots 1 27 1760 = NaN"
      "\<not> js_gt (peak_frequency overflow_slots 1 27 1760) (Fin 0)"
    by blast+
  from f have f': "peak_frequency (compute_correlations example_frame 1 27) 1 27 1760 = Fin 440"
    by (auto simp: example_refine)
  have cg: "\<not> js_lt (rms_of constant_frame) (Fin MIN_RMS_THRESHOLD)"
    by (simp add: constant_rms MIN_RMS_THRESHOLD_def)
  from estimate_failure_paths [OF sr l constant_scan, of constant_frame "2 ^ 53 - 1"] cg
  have "autocorrelate_on (2 ^ 53 - 1) constant_frame 1760
     = Inr (peak_frequency (compute_correlations constant_frame 1 27) 1 27 1760)" by simp
  with d have h: "autocorrelate_on (2 ^ 53 - 1) constant_frame 1760 = Inr NoSignal" by simp
  from sr a b c d e f f' g h show ?thesis by (simp add: overflow_slots_get)
qed

section \<open>The animation loop\<close>

lemma findClosestNote_defined:
  assumes "js_gt freq (Fin 0)"
  shows "\<exists>closest. findClosestNote freq = Inr closest"
proof (cases freq)
  case (Fin f)
  with assms have "0 < f" by (simp add: js_gt_def)
  from findClosestNote_Fin [OF this refl] Fin show ?thesis by simp
next
  case PosInf
  then show ?thesis
    by (simp add: findClosestNote_def js_inf_def js_ge_def length_NOTE_FREQUENCIES)
qed (use assms in \<open>simp_all add: js_gt_def\<close>)

lemma audioLoop_listening:
  assumes "analyser st" and "isListening st" and "autocorrelate frame sampleRate = Inr freq"
  shows "audioLoop frame sampleRate st =
     (if js_gt freq (Fin 0) then
        (case (currentMode st, selectedNote st) of
           (Manual, Some sel) \<Rightarrow>
             Inr (updateUI freq (cn_note sel) (cn_octave sel) (calculateCents freq (cn_frequency sel)) st)
         | _ \<Rightarrow>
             (case findClosestNote freq of
                Inl e \<Rightarrow> Inl e
              | Inr closest \<Rightarrow>
                  Inr (updateUI freq (cn_note closest) (cn_octave closest)
                         (calculateCents freq (cn_frequency closest)) st)))
      else Inr (st\<lparr>statusBar := WaitingForAudio\<rparr>))"
  using assms by (simp add: audioLoop_def)

lemma audioLoop_preserves:
  assumes "audioLoop frame sampleRate st = Inr st'"
  shows "currentMode st' = currentMode st \<and> selectedNote st' = selectedNote st \<and>
         analyser st' = analyser st \<and> isListening st' = isListening st"
  using assms
  by (auto simp: audioLoop_def updateUI_def
      split: if_splits sum.splits TunerMode.splits option.splits)

lemma run_ticks_preserves:
  "run_ticks frames st = Inr st' \<Longrightarrow>
   currentMode st' = currentMode st \<and> selectedNote st' = selectedNote st"
proof (induction frames arbitrary: st)
  case Nil
  then show ?case by simp
next
  case (Cons p frames)
  obtain frame rate where p: "p = (frame, rate)" by (cases p)
  from Cons.prems p obtain s1 where s1: "audioLoop frame rate st = Inr s1"
      "run_ticks frames s1 = Inr st'"
    by (auto split: sum.splits)
  from Cons.IH [OF s1(2)] audioLoop_preserves [OF s1(1)] show ?case by simp
qed

lemma selectNote_sets:
  "currentMode (selectNote n oct f st) = Manual \<and>
   selectedNote (selectNote n oct f st) = Some \<lparr>cn_note = n, cn_octave = oct, cn_frequency = f\<rparr>"
  by (simp add: selectNote_def setManualMode_def Let_def)

lemma manual_tick:
  assumes "currentMode st = Manual" and "selectedNote st = Some sel"
    and "audioLoop frame sampleRate st = Inr st'"
  shows "st' = st \<or> st' = st\<lparr>statusBar := WaitingForAudio\<rparr> \<or>
    (\<exists>freq. autocorrelate frame sampleRate = Inr freq \<and> js_gt freq (Fin 0) \<and>
       st' = updateUI freq (cn_note sel) (cn_octave sel) (calculateCents freq (cn_frequency sel)) st)"
  using assms
  by (auto simp: audioLoop_def split: if_splits sum.splits)

text \<open>
  Claim C1, as amended. While listening, for every frame whose estimate is positive, a tick
  in manual mode with no note selected does what a tick in auto mode does: it displays a
  reading measured against the nearest note of the table, \<^verbatim>\<open>findClosestNote(frequency)\<close>, and
  it does not write the status bar.
\<close>

theorem manual_without_target:
  assumes "analyser st" and "isListening st"
    and "currentMode st = Manual" and "selectedNote st = None"
    and "autocorrelate frame sampleRate = Inr freq" and "js_gt freq (Fin 0)"
  shows "\<exists>closest. findClosestNote freq = Inr closest \<and>
    audioLoop frame sampleRate st =
      Inr (updateUI freq (cn_note closest) (cn_octave closest)
             (calculateCents freq (cn_frequency closest)) st) \<and>
    audioLoop frame sampleRate (st\<lparr>currentMode := Auto\<rparr>) =
      Inr (updateUI freq (cn_note closest) (cn_octave closest)
             (calculateCents freq (cn_frequency closest)) (st\<lparr>currentMode := Auto\<rparr>)) \<and>
    statusBar (updateUI freq (cn_note closest) (cn_octave closest)
             (calculateCents freq (cn_frequency closest)) st) = statusBar st \<and>
    displayed (updateUI freq (cn_note closest) (cn_octave closest)
             (calculateCents freq (cn_frequency closest)) st) =
      Some \<lparr>rd_frequency = freq, rd_note = cn_note closest, rd_octave = cn_octave closest,
            rd_cents = calculateCents freq (cn_frequency closest)\<rparr>"
proof -
  from findClosestNote_defined [OF assms(6)] obtain closest where
    c: "findClosestNote freq = Inr closest" ..
  have "audioLoop frame sampleRate st =
      Inr (updateUI freq (cn_note closest) (cn_octave closest)
             (calculateCents freq (cn_frequency closest)) st)"
    using assms c by (simp add: audioLoop_listening)
  moreover have "audioLoop frame sampleRate (st\<lparr>currentMode := Auto\<rparr>) =
      Inr (updateUI freq (cn_note closest) (cn_octave closest)
             (calculateCents freq (cn_frequency closest)) (st\<lparr>currentMode := Auto\<rparr>))"
    using assms c by (simp add: audioLoop_def)
  ultimately show ?thesis
    using c by (simp add: updateUI_def)
qed

text \<open>
  Claim C9. \<^verbatim>\<open>selectNote\<close> stores the target and switches to manual mode. A tick never changes
  the mode or the target. Hence after any number of ticks that follow the selection, a tick
  that displays a reading displays the note name and the octave of the target, whatever the
  detected frequency is and whatever the nearest note would be; only the frequency and the
  cents of the reading depend on the frame.
\<close>

theorem manual_target_stable:
  "currentMode (selectNote n oct f st) = Manual \<and>
   selectedNote (selectNote n oct f st) = Some \<lparr>cn_note = n, cn_octave = oct, cn_frequency = f\<rparr> \<and>
   (\<forall>frame rate s s'. audioLoop frame rate s = Inr s' \<longrightarrow>
      currentMode s' = currentMode s \<and> selectedNote s' = selectedNote s) \<and>
   (\<forall>frames s'. run_ticks frames (selectNote n oct f st) = Inr s' \<longrightarrow>
      currentMode s' = Manual \<and>
      selectedNote s' = Some \<lparr>cn_note = n, cn_octave = oct, cn_frequency = f\<rparr> \<and>
      (\<forall>frame rate s''. audioLoop frame rate s' = Inr s'' \<longrightarrow>
         s'' = s' \<or> s'' = s'\<lparr>statusBar := WaitingForAudio\<rparr> \<or>
         (\<exists>freq. autocorrelate frame rate = Inr freq \<and> js_gt freq (Fin 0) \<and>
            s'' = updateUI freq n oct (calculateCents freq f) s' \<and>
            displayed s'' = Some \<lparr>rd_frequency = freq, rd_note = n, rd_octave = oct,
                                  rd_cents = calculateCents freq f\<rparr>)))"
proof (intro conjI allI impI)
  show "currentMode (selectNote n oct f st) = Manual"
    and "selectedNote (selectNote n oct f st) = Some \<lparr>cn_note = n, cn_octave = oct, cn_frequency = f\<rparr>"
    using selectNote_sets by simp_all
next
  fix frame rate s s'
  assume "audioLoop frame rate s = Inr s'"
  from audioLoop_preserves [OF this]
  show "currentMode s' = currentMode s" and "selectedNote s' = selectedNote s" by simp_all
next
  fix frames s'
  assume r: "run_ticks frames (selectNote n oct f st) = Inr s'"
  from run_ticks_preserves [OF r] selectNote_sets [of n oct f st]
  show m: "currentMode s' = Manual"
    and t: "selectedNote s' = Some \<lparr>cn_note = n, cn_octave = oct, cn_frequency = f\<rparr>"
    by simp_all
  fix frame rate s''
  assume "audioLoop frame rate s' = Inr s''"
  from manual_tick [OF m t this]
  show "s'' = s' \<or> s'' = s'\<lparr>statusBar := WaitingForAudio\<rparr> \<or>
         (\<exists>freq. autocorrelate frame rate = Inr freq \<and> js_gt freq (Fin 0) \<and>
            s'' = updateUI freq n oct (calculateCents freq f) s' \<and>
            displayed s'' = Some \<lparr>rd_frequency = freq, rd_note = n, rd_octave = oct,
                                  rd_cents = calculateCents freq f\<rparr>)"
    by (auto simp: updateUI_def)
qed

section \<open>Examples for the animation loop\<close>

lemma closest_440:
  "findClosestNote (Fin 440) = Inr \<lparr>cn_note = ''A'', cn_octave = Fin 4, cn_frequency = Fin 440\<rparr>"
proof -
  have "(0::real) < 440" by simp
  from findClosestNote_Fin [OF this, of 57] show ?thesis
    by (simp add: NOTE_NAMES_def nth_NOTE_FREQUENCIES table_entry_def)
qed

lemma cents_440: "calculateCents (Fin 440) (Fin 440) = Fin 0"
  using calculateCents_Fin [of 440 440] by simp

lemma silent_autocorrelate: "autocorrelate silent_frame sampleRate = Inr NoSignal"
proof -
  have "rms_of silent_frame = Fin 0"
    by (rule rms_of_zeros) (simp_all add: silent_frame_def)
  then show ?thesis
    by (intro gate_NoSignal) (simp add: MIN_RMS_THRESHOLD_def)
qed

lemma silent_tick:
  assumes "analyser st" and "isListening st"
  shows "audioLoop silent_frame sampleRate st = Inr (st\<lparr>statusBar := WaitingForAudio\<rparr>)"
  using assms
  by (simp add: audioLoop_listening [OF _ _ silent_autocorrelate] NoSignal_def js_gt_def)

theorem manual_without_target_counterexample:
  "isListening (setManualMode listening_state) \<and>
   currentMode (setManualMode listening_state) = Manual \<and>
   selectedNote (setManualMode listening_state) = None \<and>
   statusBar (setManualMode listening_state) = SelectAString \<and>
   autocorrelate example_frame 1760 = Inr (Fin 440) \<and>
   audioLoop example_frame 1760 (setManualMode listening_state) =
     Inr ((setManualMode listening_state)
            \<lparr>displayed := Some \<lparr>rd_frequency = Fin 440, rd_note = ''A'', rd_octave = Fin 4,
                                rd_cents = Fin 0\<rparr>\<rparr>) \<and>
   run_ticks [(silent_frame, 1760), (example_frame, 1760)] (setManualMode listening_state) =
     Inr ((setManualMode listening_state)
            \<lparr>statusBar := WaitingForAudio,
             displayed := Some \<lparr>rd_frequency = Fin 440, rd_note = ''A'', rd_octave = Fin 4,
                                rd_cents = Fin 0\<rparr>\<rparr>)"
proof -
  let ?s = "setManualMode listening_state"
  have s: "analyser ?s" "isListening ?s" "currentMode ?s = Manual" "selectedNote ?s = None"
    "statusBar ?s = SelectAString"
    by (simp_all add: setManualMode_def listening_state_def)
  have t: "audioLoop example_frame 1760 ?s =
     Inr (?s\<lparr>displayed := Some \<lparr>rd_frequency = Fin 440, rd_note = ''A'', rd_octave = Fin 4,
                                rd_cents = Fin 0\<rparr>\<rparr>)"
    using s by (simp add: audioLoop_listening [OF _ _ example_autocorrelate] closest_440 cents_440
        updateUI_def js_gt_def)
  have t2: "audioLoop example_frame 1760 (?s\<lparr>statusBar := WaitingForAudio\<rparr>) =
     Inr (?s\<lparr>statusBar := WaitingForAudio,
             displayed := Some \<lparr>rd_frequency = Fin 440, rd_note = ''A'', rd_octave = Fin 4,
                                rd_cents = Fin 0\<rparr>\<rparr>)"
    using s by (simp add: audioLoop_listening [OF _ _ example_autocorrelate] closest_440 cents_440
        updateUI_def js_gt_def)
  have r: "run_ticks [(silent_frame, 1760), (example_frame, 1760)] ?s =
     Inr (?s\<lparr>statusBar := WaitingForAudio,
             displayed := Some \<lparr>rd_frequency = Fin 440, rd_note = ''A'', rd_octave = Fin 4,
                                rd_cents = Fin 0\<rparr>\<rparr>)"
    using s by (simp add: silent_tick t2)
  from s t r example_autocorrelate show ?thesis by simp
qed

theorem manual_without_target_witness:
  "\<exists>closest. findClosestNote (Fin 440) = Inr closest \<and>
     cn_note closest = ''A'' \<and>
     audioLoop example_frame 1760 (setManualMode listening_state) =
       Inr (updateUI (Fin 440) (cn_note closest) (cn_octave closest)
              (calculateCents (Fin 440) (cn_frequency closest)) (setManualMode listening_state)) \<and>
     audioLoop example_frame 1760 ((setManualMode listening_state)\<lparr>currentMode := Auto\<rparr>) =
       Inr (updateUI (Fin 440) (cn_note closest) (cn_octave closest)
              (calculateCents (Fin 440) (cn_frequency closest))
              ((setManualMode listening_state)\<lparr>currentMode := Auto\<rparr>))"
proof -
  let ?s = "setManualMode listening_state"
  have s: "analyser ?s" "isListening ?s" "currentMode ?s = Manual" "selectedNote ?s = None"
    by (simp_all add: setManualMode_def listening_state_def)
  have g: "js_gt (Fin 440) (Fin 0)" by (simp add: js_gt_def)
  from manual_without_target [OF s example_autocorrelate g] closest_440
  show ?thesis by auto
qed

theorem manual_target_stable_witness:
  "currentMode (selectNote ''E'' (Fin 2) (Fin 82.41) listening_state) = Manual \<and>
   findClosestNote (Fin 440) = Inr \<lparr>cn_note = ''A'', cn_octave = Fin 4, cn_frequency = Fin 440\<rparr> \<and>
   (\<exists>s'. run_ticks [(silent_frame, 1760)] (selectNote ''E'' (Fin 2) (Fin 82.41) listening_state) = Inr s' \<and>
      selectedNote s' = Some \<lparr>cn_note = ''E'', cn_octave = Fin 2, cn_frequency = Fin 82.41\<rparr> \<and>
      audioLoop example_frame 1760 s' =
        Inr (updateUI (Fin 440) ''E'' (Fin 2) (calculateCents (Fin 440) (Fin 82.41)) s'))"
proof -
  define f :: real where "f = 82.41"
  let ?s0 = "selectNote ''E'' (Fin 2) (Fin f) listening_state"
  let ?s1 = "?s0\<lparr>statusBar := WaitingForAudio\<rparr>"
  note spec = manual_target_stable [of "''E''" "Fin 2" "Fin f" listening_state]
  from spec have m: "currentMode ?s0 = Manual" by blast
  have l: "analyser ?s0" "isListening ?s0"
    by (simp_all add: selectNote_def setManualMode_def listening_state_def Let_def)
  then have r: "run_ticks [(silent_frame, 1760)] ?s0 = Inr ?s1"
    by (simp add: silent_tick)
  from spec r have t: "currentMode ?s1 = Manual"
      "selectedNote ?s1 = Some \<lparr>cn_note = ''E'', cn_octave = Fin 2, cn_frequency = Fin f\<rparr>"
    by blast+
  have l1: "analyser ?s1" "isListening ?s1" using l by simp_all
  have "audioLoop example_frame 1760 ?s1 =
        Inr (updateUI (Fin 440) ''E'' (Fin 2) (calculateCents (Fin 440) (Fin f)) ?s1)"
    using t by (simp add: audioLoop_listening [OF l1 example_autocorrelate] js_gt_def)
  with m r t closest_440
  have "currentMode ?s0 = Manual \<and>
   findClosestNote (Fin 440) = Inr \<lparr>cn_note = ''A'', cn_octave = Fin 4, cn_frequency = Fin 440\<rparr> \<and>
   (\<exists>s'. run_ticks [(silent_frame, 1760)] ?s0 = Inr s' \<and>
      selectedNote s' = Some \<lparr>cn_note = ''E'', cn_octave = Fin 2, cn_frequency = Fin f\<rparr> \<and>
      audioLoop example_frame 1760 s' =
        Inr (updateUI (Fin 440) ''E'' (Fin 2) (calculateCents (Fin 440) (Fin f)) s'))"
    by blast
  then show ?thesis unfolding f_def .
qed

end
